theory Spec2Isabelle
  imports Main
begin

text \<open>
  A document-extraction workspace: an image is uploaded, a vision model extracts fields
  and tables from it, the result is edited in a tab, and it is exported as CSV or synced
  to a spreadsheet. This theory embeds the export to the spreadsheet
  (\<open>exportToGoogleSheet\<close>: flattening, header union, reprojection, and the five
  remote calls), the rows of the CSV export, and the component that holds the tabs
  (\<open>App.tsx\<close>: its state and its handlers), and proves the properties claimed of
  them. What the code awaits (the remote calls, the extraction, the clock) enters the
  functions as a parameter; what it raises is a value (\<open>Inl\<close> of the error's
  message).
\<close>

section \<open>Data model (types.ts)\<close>

text \<open>
  A field value is \<open>string | number\<close>. The number type is left as the type parameter
  \<open>'n\<close>; its rendering \<open>String(n)\<close> is the parameter \<open>num\<close> of every function
  that stringifies a field value.
\<close>

datatype 'n fvalue = VString string | VNumber 'n

record 'n Field =
  label :: string
  field_value :: "'n fvalue"

record TableRow =
  row_values :: "string list"

record Table =
  table_name :: string
  headers :: "string list"
  rows :: "TableRow list"

record 'n ExtractedData =
  data_fields :: "'n Field list"
  tables :: "Table list"

datatype AppStatus = IDLE | ANALYZING | SUCCESS | ERROR | EXPORTING

section \<open>JavaScript primitives used by the code\<close>

text \<open>\<open>String(v)\<close> on a \<open>string | number\<close>.\<close>

fun String_of :: "('n \<Rightarrow> string) \<Rightarrow> 'n fvalue \<Rightarrow> string" where
  "String_of num (VString s) = s"
| "String_of num (VNumber n) = num n"

text \<open>\<open>xs.indexOf(x)\<close>: the first position of \<open>x\<close>, or \<open>-1\<close>.\<close>

fun indexOf :: "'a list \<Rightarrow> 'a \<Rightarrow> int" where
  "indexOf [] x = - 1"
| "indexOf (y # ys) x =
     (if y = x then 0
      else (let i = indexOf ys x in if i = - 1 then - 1 else i + 1))"

text \<open>\<open>xs[i]\<close>: an out-of-range read is \<open>undefined\<close>, here \<open>None\<close>.\<close>

definition js_get :: "'a list \<Rightarrow> int \<Rightarrow> 'a option" where
  "js_get xs i = (if 0 \<le> i \<and> nat i < length xs then Some (xs ! nat i) else None)"

section \<open>Spreadsheet export: flattening (googleSheetsService.ts, step 1)\<close>

definition globalHeaders :: "'n ExtractedData \<Rightarrow> string list" where
  "globalHeaders d = map label (data_fields d)"

definition globalValues :: "('n \<Rightarrow> string) \<Rightarrow> 'n ExtractedData \<Rightarrow> string list" where
  "globalValues num d = map (\<lambda>f. String_of num (field_value f)) (data_fields d)"

text \<open>\<open>while (rowVals.length < primaryTable.headers.length) rowVals.push("")\<close>\<close>

function pad_row :: "string list \<Rightarrow> nat \<Rightarrow> string list" where
  "pad_row rowVals n = (if length rowVals < n then pad_row (rowVals @ ['''']) n else rowVals)"
  by pat_completeness auto
termination
  by (relation "measure (\<lambda>(rowVals, n). n - length rowVals)") auto

declare pad_row.simps [simp del]

definition finalHeaders :: "'n ExtractedData \<Rightarrow> string list" where
  "finalHeaders d =
     (case tables d of
        [] \<Rightarrow> globalHeaders d
      | primaryTable # _ \<Rightarrow> globalHeaders d @ headers primaryTable)"

text \<open>
  The \<open>forEach\<close> over the primary table's rows pushes one row per table row;
  \<open>tableRow.values.map(v => String(v))\<close> is the identity on strings.
\<close>

definition rowsToAppend :: "('n \<Rightarrow> string) \<Rightarrow> 'n ExtractedData \<Rightarrow> string list list" where
  "rowsToAppend num d =
     (case tables d of
        [] \<Rightarrow> [] @ [globalValues num d]
      | primaryTable # _ \<Rightarrow>
          fold (\<lambda>tableRow acc.
                  acc @ [globalValues num d
                         @ pad_row (map (\<lambda>v. v) (row_values tableRow)) (length (headers primaryTable))])
               (rows primaryTable) [])"

section \<open>Spreadsheet export: header union and reprojection (steps 3 and 4)\<close>

text \<open>
  \<open>masterHeaders\<close> starts as a copy of the existing headers; every local header not
  yet included is pushed, and \<open>headersChanged\<close> records that a push happened.
\<close>

definition computeHeaderUnion :: "string list \<Rightarrow> string list \<Rightarrow> string list \<times> bool" where
  "computeHeaderUnion existingHeaders finalHs =
     fold (\<lambda>h (masterHeaders, headersChanged).
             if h \<in> set masterHeaders then (masterHeaders, headersChanged)
             else (masterHeaders @ [h], True))
          finalHs (existingHeaders, False)"

definition masterHeaders :: "string list \<Rightarrow> string list \<Rightarrow> string list" where
  "masterHeaders existingHeaders finalHs = fst (computeHeaderUnion existingHeaders finalHs)"

definition headersChanged :: "string list \<Rightarrow> string list \<Rightarrow> bool" where
  "headersChanged existingHeaders finalHs = snd (computeHeaderUnion existingHeaders finalHs)"

definition formattedRows ::
  "string list \<Rightarrow> string list \<Rightarrow> string list list \<Rightarrow> string option list list" where
  "formattedRows masterHs finalHs rowsToApp =
     map (\<lambda>localRow.
            map (\<lambda>header.
                   (let localIndex = indexOf finalHs header
                    in if localIndex \<noteq> - 1 then js_get localRow localIndex else Some ''''))
                masterHs)
         rowsToApp"

section \<open>Spreadsheet export: the remote protocol (exportToGoogleSheet)\<close>

text \<open>
  A parsed JSON body, by the three paths the code reads: \<open>err.error?.message\<close>,
  \<open>metaData.sheets\<close> (each sheet by its \<open>properties.title\<close>) and
  \<open>getResult.values\<close>. An absent key is \<open>None\<close>.
\<close>

record api_body =
  error_message :: "string option"
  sheet_titles :: "string list option"
  values_rows :: "string list list option"

text \<open>
  What \<open>await fetch(...)\<close> gives: the promise rejects with a message (no response
  arrived), or resolves to a response with its \<open>ok\<close> flag and its body, which
  \<open>response.json()\<close> either fails to parse (\<open>Inl\<close>, the error's message) or
  parses (\<open>Inr\<close>).
\<close>

datatype fetch_result = Rejected string | Resolved bool "string + api_body"

text \<open>The remote side of one export: the answer to each of the five calls.\<close>

record remote =
  metaResponse :: fetch_result
  addSheetResponse :: fetch_result
  getResponse :: fetch_result
  putResponse :: fetch_result
  appendResponse :: fetch_result

text \<open>
  The requests an export issues, in order: spreadsheet id, then the sheet title or the
  A1 range (before URL encoding), then the rows sent.
\<close>

datatype request =
    GetSpreadsheet string
  | AddSheet string string
  | GetValues string string
  | PutValues string string "string list list"
  | AppendValues string string "string option list list"

text \<open>\<open>m || dflt\<close> on an optional string: absent and empty are both falsy.\<close>

definition or_default :: "string option \<Rightarrow> string \<Rightarrow> string" where
  "or_default m dflt = (case m of None \<Rightarrow> dflt | Some t \<Rightarrow> if t = [] then dflt else t)"

text \<open>The character class \<open>[a-zA-Z0-9_]\<close>.\<close>

definition is_word_char :: "char \<Rightarrow> bool" where
  "is_word_char c =
     (let k = (of_char c :: nat)
      in (97 \<le> k \<and> k \<le> 122) \<or> (65 \<le> k \<and> k \<le> 90) \<or> (48 \<le> k \<and> k \<le> 57) \<or> k = 95)"

text \<open>
  \<open>formatSheetName\<close>: a name matching \<open>/^[a-zA-Z0-9_]+$/\<close> is returned as it is;
  any other is wrapped in single quotes, each single quote inside doubled.
\<close>

definition formatSheetName :: "string \<Rightarrow> string" where
  "formatSheetName nm =
     (if nm \<noteq> [] \<and> list_all is_word_char nm then nm
      else [CHR 0x27]
           @ concat (map (\<lambda>c. if c = CHR 0x27 then [CHR 0x27, CHR 0x27] else [c]) nm)
           @ [CHR 0x27])"

text \<open>Step 5: the append call and the check of its response.\<close>

definition export_append ::
  "remote \<Rightarrow> string \<Rightarrow> string \<Rightarrow> string option list list \<Rightarrow> request list
   \<Rightarrow> (string + unit) \<times> request list" where
  "export_append rem spreadsheetId a1SheetName formatted sent =
     (let sent' = sent @ [AppendValues spreadsheetId (a1SheetName @ ''!A2'') formatted]
      in case appendResponse rem of
           Rejected m \<Rightarrow> (Inl m, sent')
         | Resolved ok body \<Rightarrow>
             if \<not> ok then
               (case body of
                  Inl m \<Rightarrow> (Inl m, sent')
                | Inr err \<Rightarrow> (Inl (or_default (error_message err) ''Failed to append row''), sent'))
             else (Inr (), sent'))"

text \<open>
  Steps 3 and 4: the header union, the overwrite of row 1 when a header was added (the
  response of the PUT is awaited and never looked at), the reprojection, then step 5.
  The flattening of step 1, which the code does before it reads row 1, calls nothing and
  raises nothing; it is computed here, where it is used.
\<close>

definition export_union ::
  "('n \<Rightarrow> string) \<Rightarrow> remote \<Rightarrow> string \<Rightarrow> string \<Rightarrow> 'n ExtractedData \<Rightarrow> string list
   \<Rightarrow> request list \<Rightarrow> (string + unit) \<times> request list" where
  "export_union num rem spreadsheetId a1SheetName d existingHeaders sent =
     (let finalHs = finalHeaders d;
          rowsToApp = rowsToAppend num d;
          masterHs = masterHeaders existingHeaders finalHs;
          formatted = formattedRows masterHs finalHs rowsToApp
      in if headersChanged existingHeaders finalHs then
           (let sent' = sent @ [PutValues spreadsheetId (a1SheetName @ ''!A1'') [masterHs]]
            in case putResponse rem of
                 Rejected m \<Rightarrow> (Inl m, sent')
               | Resolved ok body \<Rightarrow> export_append rem spreadsheetId a1SheetName formatted sent')
         else export_append rem spreadsheetId a1SheetName formatted sent)"

text \<open>
  Step 2: row 1 of the sheet is fetched; a response that is not ok counts as no headers,
  and \<open>getResult.values?.[0] || []\<close> is the first row when there is one.
\<close>

definition export_headers ::
  "('n \<Rightarrow> string) \<Rightarrow> remote \<Rightarrow> string \<Rightarrow> string \<Rightarrow> 'n ExtractedData
   \<Rightarrow> request list \<Rightarrow> (string + unit) \<times> request list" where
  "export_headers num rem spreadsheetId a1SheetName d sent =
     (let sent' = sent @ [GetValues spreadsheetId (a1SheetName @ ''!A1:Z1'')]
      in case getResponse rem of
           Rejected m \<Rightarrow> (Inl m, sent')
         | Resolved ok body \<Rightarrow>
             if ok then
               (case body of
                  Inl m \<Rightarrow> (Inl m, sent')
                | Inr getResult \<Rightarrow>
                    export_union num rem spreadsheetId a1SheetName d
                      (case values_rows getResult of
                         None \<Rightarrow> []
                       | Some [] \<Rightarrow> []
                       | Some (r # _) \<Rightarrow> r)
                      sent')
             else export_union num rem spreadsheetId a1SheetName d [] sent')"

text \<open>
  The whole call. Step 0 fetches the spreadsheet's metadata and raises unless the
  response is ok; a sheet titled \<open>sheetName\<close> is looked for, and when none is found an
  addSheet request is sent, whose response is awaited and never looked at. With no
  \<open>sheets\<close> key in the metadata, \<open>metaData.sheets.find\<close> raises a TypeError (its
  message is the engine's; the text here stands for it).
\<close>

definition exportToGoogleSheet ::
  "('n \<Rightarrow> string) \<Rightarrow> remote \<Rightarrow> string \<Rightarrow> string \<Rightarrow> 'n ExtractedData \<Rightarrow> string
   \<Rightarrow> (string + unit) \<times> request list" where
  "exportToGoogleSheet num rem spreadsheetId accessToken d sheetName =
     (if spreadsheetId = [] \<or> accessToken = [] then
        (Inl ''Missing Spreadsheet ID or Access Token'', [])
      else
        (let sent = [GetSpreadsheet spreadsheetId]
         in case metaResponse rem of
              Rejected m \<Rightarrow> (Inl m, sent)
            | Resolved ok body \<Rightarrow>
                if \<not> ok then
                  (case body of
                     Inl m \<Rightarrow> (Inl m, sent)
                   | Inr err \<Rightarrow>
                       (Inl (or_default (error_message err)
                              ''Failed to access spreadsheet. Check ID and permissions.''), sent))
                else
                  (case body of
                     Inl m \<Rightarrow> (Inl m, sent)
                   | Inr metaData \<Rightarrow>
                       (case sheet_titles metaData of
                          None \<Rightarrow> (Inl ''metaData.sheets is undefined'', sent)
                        | Some titles \<Rightarrow>
                            (case find (\<lambda>title. title = sheetName) titles of
                               None \<Rightarrow>
                                 (let sent' = sent @ [AddSheet spreadsheetId sheetName]
                                  in case addSheetResponse rem of
                                       Rejected m \<Rightarrow> (Inl m, sent')
                                     | Resolved ok' body' \<Rightarrow>
                                         export_headers num rem spreadsheetId
                                           (formatSheetName sheetName) d sent')
                             | Some existingSheet \<Rightarrow>
                                 export_headers num rem spreadsheetId
                                   (formatSheetName sheetName) d sent)))))"

section \<open>CSV export (downloadCSV in App.tsx)\<close>

text \<open>The header row and the data rows, before they are quoted and joined.\<close>

definition downloadCSV_table ::
  "('n \<Rightarrow> string) \<Rightarrow> 'n ExtractedData \<Rightarrow> string list \<times> string list list" where
  "downloadCSV_table num resultData =
     (let hs = map label (data_fields resultData);
          rs = [map (\<lambda>f. String_of num (field_value f)) (data_fields resultData)]
      in case tables resultData of
           [] \<Rightarrow> (hs, rs)
         | mainTable # _ \<Rightarrow>
             (let globalVals = map (\<lambda>f. String_of num (field_value f)) (data_fields resultData)
              in (hs @ headers mainTable,
                  fold (\<lambda>r acc. acc @ [globalVals @ row_values r]) (rows mainTable) [])))"

text \<open>\<open>xs.join(sep)\<close>\<close>

fun join :: "string \<Rightarrow> string list \<Rightarrow> string" where
  "join sep [] = []"
| "join sep [x] = x"
| "join sep (x # y # ys) = x @ sep @ join sep (y # ys)"

definition csvContent :: "('n \<Rightarrow> string) \<Rightarrow> 'n ExtractedData \<Rightarrow> string" where
  "csvContent num resultData =
     (let (hs, rs) = downloadCSV_table num resultData;
          quote = (\<lambda>c. [CHR 0x22] @ c @ [CHR 0x22])
      in ''data:text/csv;charset=utf-8,''
         @ join '','' (map quote hs) @ [CHR 0x0A]
         @ join [CHR 0x0A] (map (\<lambda>r. join '','' (map quote r)) rs))"

section \<open>The session store (App.tsx)\<close>

record 'n ProcessedResult =
  rid :: string
  name :: string
  img :: string
  data :: "'n ExtractedData"
  status :: AppStatus
  errorMessage :: "string option"

text \<open>\<open>Partial<ProcessedResult>\<close>: a key that is not given is \<open>None\<close>.\<close>

record 'n Partial =
  p_id :: "string option"
  p_name :: "string option"
  p_image :: "string option"
  p_data :: "'n ExtractedData option"
  p_status :: "AppStatus option"
  p_errorMessage :: "string option option"

definition no_updates :: "'n Partial" where
  "no_updates =
     \<lparr>p_id = None, p_name = None, p_image = None, p_data = None, p_status = None,
      p_errorMessage = None\<rparr>"

record SheetConfig =
  spreadsheetId :: string
  clientId :: string

text \<open>What the component does to the outside, in the order it does it.\<close>

datatype effect =
    Alert string
  | Confirm string
  | ConsoleError string
  | RequestAccessToken string
  | Fetch request

record 'n AppState =
  results :: "'n ProcessedResult list"
  activeResultId :: "string option"
  showSettings :: bool
  sheetConfig :: SheetConfig
  googleAccessToken :: "string option"
  effects :: "effect list"

definition initial_state :: "'n AppState" where
  "initial_state =
     \<lparr>results = [], activeResultId = None, showSettings = False,
      sheetConfig = \<lparr>spreadsheetId = [], clientId = []\<rparr>,
      googleAccessToken = None, effects = []\<rparr>"

text \<open>\<open>{ ...r, ...updates }\<close>\<close>

definition spread :: "'n ProcessedResult \<Rightarrow> 'n Partial \<Rightarrow> 'n ProcessedResult" where
  "spread r updates =
     \<lparr>rid = (case p_id updates of None \<Rightarrow> rid r | Some v \<Rightarrow> v),
      name = (case p_name updates of None \<Rightarrow> name r | Some v \<Rightarrow> v),
      img = (case p_image updates of None \<Rightarrow> img r | Some v \<Rightarrow> v),
      data = (case p_data updates of None \<Rightarrow> data r | Some v \<Rightarrow> v),
      status = (case p_status updates of None \<Rightarrow> status r | Some v \<Rightarrow> v),
      errorMessage = (case p_errorMessage updates of None \<Rightarrow> errorMessage r | Some v \<Rightarrow> v)\<rparr>"

definition updateResult :: "string \<Rightarrow> 'n Partial \<Rightarrow> 'n AppState \<Rightarrow> 'n AppState" where
  "updateResult tabId updates s =
     s\<lparr>results := map (\<lambda>r. if rid r = tabId then spread r updates else r) (results s)\<rparr>"

definition activeResult :: "'n AppState \<Rightarrow> 'n ProcessedResult option" where
  "activeResult s = find (\<lambda>r. activeResultId s = Some (rid r)) (results s)"

text \<open>The decimal digits of a natural number, as a template literal renders it.\<close>

definition digit_char :: "nat \<Rightarrow> char" where
  "digit_char k = ''0123456789'' ! k"

function string_of_nat :: "nat \<Rightarrow> string" where
  "string_of_nat n =
     (if n < 10 then [digit_char n]
      else string_of_nat (n div 10) @ [digit_char (n mod 10)])"
  by pat_completeness auto
termination
  by (relation "measure (\<lambda>n. n)") auto

declare string_of_nat.simps [simp del]

text \<open>
  \<open>handleImageSelect\<close> up to its \<open>await\<close>; \<open>now\<close> is the reading of
  \<open>Date.now()\<close>. The handler is a closure of the render that made it: the name is
  built from \<open>results.length\<close> of that render, here \<open>rendered\<close>, while
  \<open>setResults(prev => [...prev, newResult])\<close> appends to the collection as it is
  when the handler runs, here \<open>results s\<close>.
\<close>

definition handleImageSelect ::
  "nat \<Rightarrow> string \<Rightarrow> 'n ProcessedResult list \<Rightarrow> 'n AppState \<Rightarrow> 'n AppState" where
  "handleImageSelect now base64 rendered s =
     (let newResultId = ''result-'' @ string_of_nat now;
          newResult =
            \<lparr>rid = newResultId,
             name = ''Result '' @ string_of_nat (length rendered + 1),
             img = base64,
             data = \<lparr>data_fields = [], tables = []\<rparr>,
             status = ANALYZING,
             errorMessage = None\<rparr>
      in s\<lparr>results := results s @ [newResult], activeResultId := Some newResultId\<rparr>)"

text \<open>
  The rest of \<open>handleImageSelect\<close>, run when \<open>extractDataFromImage\<close> settles for the
  result created under \<open>newResultId\<close>: \<open>Inr\<close> the extracted data, \<open>Inl\<close> the
  message of the error thrown.
\<close>

definition extraction_settled ::
  "string \<Rightarrow> string + 'n ExtractedData \<Rightarrow> 'n AppState \<Rightarrow> 'n AppState" where
  "extraction_settled newResultId outcome s =
     (case outcome of
        Inr extractedData \<Rightarrow>
          updateResult newResultId
            (no_updates\<lparr>p_data := Some extractedData, p_status := Some SUCCESS\<rparr>) s
      | Inl message \<Rightarrow>
          updateResult newResultId
            (no_updates\<lparr>p_status := Some ERROR,
                        p_errorMessage := Some (Some (or_default (Some message) ''Failed to extract data.''))\<rparr>)
            (s\<lparr>effects := effects s @ [ConsoleError message]\<rparr>))"

definition handleCloseTab :: "string \<Rightarrow> 'n AppState \<Rightarrow> 'n AppState" where
  "handleCloseTab tabId s =
     (let remainingResults = filter (\<lambda>r. rid r \<noteq> tabId) (results s);
          s' = (if activeResultId s = Some tabId then
                  (if length remainingResults > 0
                   then s\<lparr>activeResultId := Some (rid (last remainingResults))\<rparr>
                   else s\<lparr>activeResultId := None\<rparr>)
                else s)
      in s'\<lparr>results := remainingResults\<rparr>)"

definition handleRenameTab :: "string \<Rightarrow> string \<Rightarrow> 'n AppState \<Rightarrow> 'n AppState" where
  "handleRenameTab tabId newName s = updateResult tabId (no_updates\<lparr>p_name := Some newName\<rparr>) s"

definition setActiveResultId :: "string \<Rightarrow> 'n AppState \<Rightarrow> 'n AppState" where
  "setActiveResultId tabId s = s\<lparr>activeResultId := Some tabId\<rparr>"

text \<open>\<open>onChange\<close> of the data editor.\<close>

definition editData :: "'n ExtractedData \<Rightarrow> 'n AppState \<Rightarrow> 'n AppState" where
  "editData newData s =
     (case activeResultId s of
        None \<Rightarrow> s
      | Some a \<Rightarrow> if a = [] then s else updateResult a (no_updates\<lparr>p_data := Some newData\<rparr>) s)"

text \<open>The Try Again button, shown over an active result in status ERROR.\<close>

definition tryAgain :: "'n AppState \<Rightarrow> 'n AppState" where
  "tryAgain s =
     (case activeResult s of
        None \<Rightarrow> s
      | Some r \<Rightarrow>
          if status r = ERROR then updateResult (rid r) (no_updates\<lparr>p_status := Some IDLE\<rparr>) s
          else s)"

definition setSpreadsheetId :: "string \<Rightarrow> 'n AppState \<Rightarrow> 'n AppState" where
  "setSpreadsheetId v s = s\<lparr>sheetConfig := (sheetConfig s)\<lparr>spreadsheetId := v\<rparr>\<rparr>"

definition setClientId :: "string \<Rightarrow> 'n AppState \<Rightarrow> 'n AppState" where
  "setClientId v s = s\<lparr>sheetConfig := (sheetConfig s)\<lparr>clientId := v\<rparr>\<rparr>"

text \<open>
  \<open>handleGoogleLogin\<close>; \<open>google_loaded\<close> says whether \<open>window.google\<close> is there.
\<close>

definition handleGoogleLogin :: "bool \<Rightarrow> 'n AppState \<Rightarrow> 'n AppState" where
  "handleGoogleLogin google_loaded s =
     (if clientId (sheetConfig s) = [] then
        s\<lparr>effects := effects s @ [Alert ''Please enter your Google Client ID in settings first.''],
          showSettings := True\<rparr>
      else if \<not> google_loaded then
        s\<lparr>effects := effects s @ [Alert ''Google Identity Services script not loaded.'']\<rparr>
      else s\<lparr>effects := effects s @ [RequestAccessToken (clientId (sheetConfig s))]\<rparr>)"

text \<open>The token client's callback, given \<open>tokenResponse.access_token\<close>.\<close>

definition tokenReceived :: "string \<Rightarrow> 'n AppState \<Rightarrow> 'n AppState" where
  "tokenReceived access_token s =
     (if access_token \<noteq> [] then
        s\<lparr>googleAccessToken := Some access_token,
          effects := effects s @ [Alert ''Connected to Google successfully! You can now export.'']\<rparr>
      else s)"

text \<open>\<open>s.includes(sub)\<close>: \<open>sub\<close> occurs in \<open>s\<close> at some position.\<close>

fun str_includes :: "string \<Rightarrow> string \<Rightarrow> bool" where
  "str_includes [] sub = (sub = [])"
| "str_includes (c # cs) sub = (take (length sub) (c # cs) = sub \<or> str_includes cs sub)"

text \<open>
  What \<open>handleExportToSheets\<close> captures when it reaches the call of
  \<open>exportToGoogleSheet\<close>: the arguments of the call and the id of the result it will
  update when the call settles.
\<close>

datatype 'n export_call =
  ExportCall (call_spreadsheetId: string) (call_accessToken: string)
    (call_data: "'n ExtractedData") (call_sheetName: string) (call_resultId: string)

text \<open>
  \<open>handleExportToSheets\<close> up to its \<open>await\<close>: the three early returns, else the
  result is marked EXPORTING and the call is made. \<open>confirmLogin\<close> is the answer to
  \<open>window.confirm\<close>.
\<close>

definition handleExportToSheets_begin ::
  "bool \<Rightarrow> bool \<Rightarrow> 'n AppState \<Rightarrow> 'n AppState \<times> 'n export_call option" where
  "handleExportToSheets_begin confirmLogin google_loaded s =
     (if spreadsheetId (sheetConfig s) = [] then
        (s\<lparr>showSettings := True,
           effects := effects s @ [Alert ''Please enter the Spreadsheet ID.'']\<rparr>, None)
      else
        (case (case googleAccessToken s of None \<Rightarrow> None
               | Some t \<Rightarrow> if t = [] then None else Some t) of
           None \<Rightarrow>
             (let s' = s\<lparr>effects := effects s
                          @ [Confirm ''You need to connect to Google Sheets first. Connect now?'']\<rparr>
              in (if confirmLogin then handleGoogleLogin google_loaded s' else s', None))
         | Some token \<Rightarrow>
             (case activeResult s of
                None \<Rightarrow> (s\<lparr>effects := effects s @ [Alert ''No active document to export.'']\<rparr>, None)
              | Some ar \<Rightarrow>
                  (updateResult (rid ar) (no_updates\<lparr>p_status := Some EXPORTING\<rparr>) s,
                   Some (ExportCall (spreadsheetId (sheetConfig s)) token (data ar) (name ar) (rid ar))))))"

text \<open>
  The rest of \<open>handleExportToSheets\<close>, run when the call settles: \<open>Inr\<close> it returned,
  \<open>Inl\<close> the message of the error it threw (the \<open>catch\<close> block).
\<close>

definition handleExportToSheets_settled ::
  "'n export_call \<Rightarrow> string + unit \<Rightarrow> 'n AppState \<Rightarrow> 'n AppState" where
  "handleExportToSheets_settled c outcome s =
     (case outcome of
        Inr u \<Rightarrow>
          updateResult (call_resultId c) (no_updates\<lparr>p_status := Some SUCCESS\<rparr>)
            (s\<lparr>effects := effects s
                 @ [Alert (''Success! Data exported to sheet: '' @ call_sheetName c)]\<rparr>)
      | Inl message \<Rightarrow>
          (let s1 = s\<lparr>effects := effects s
                       @ [ConsoleError message, Alert (''Export Failed: '' @ message)]\<rparr>;
               s2 = updateResult (call_resultId c) (no_updates\<lparr>p_status := Some SUCCESS\<rparr>) s1
           in if str_includes message ''401'' \<or> str_includes message ''unauthorized'' then
                s2\<lparr>googleAccessToken := None,
                   effects := effects s2 @ [Alert ''Session expired. Please connect again.'']\<rparr>
              else s2))"

text \<open>The whole handler, when nothing else happens while the call is awaited.\<close>

definition handleExportToSheets ::
  "('n \<Rightarrow> string) \<Rightarrow> remote \<Rightarrow> bool \<Rightarrow> bool \<Rightarrow> 'n AppState \<Rightarrow> 'n AppState" where
  "handleExportToSheets num rem confirmLogin google_loaded s =
     (case handleExportToSheets_begin confirmLogin google_loaded s of
        (s', None) \<Rightarrow> s'
      | (s', Some c) \<Rightarrow>
          (let (outcome, sent) =
                 exportToGoogleSheet num rem (call_spreadsheetId c) (call_accessToken c)
                   (call_data c) (call_sheetName c)
           in handleExportToSheets_settled c outcome
                (s'\<lparr>effects := effects s' @ map Fetch sent\<rparr>)))"

text \<open>
  \<open>hasData\<close>: the active result has a field or a table. The data editor shows its
  controls, and the Copy and CSV buttons are enabled, only then.
\<close>

definition hasData :: "'n AppState \<Rightarrow> bool" where
  "hasData s =
     (case activeResult s of
        None \<Rightarrow> False
      | Some r \<Rightarrow> length (data_fields (data r)) > 0 \<or> length (tables (data r)) > 0)"

text \<open>
  A token is held: the page then renders the Export Sheet button in place of the Connect
  Google button. The Export Sheet button is disabled when the active result has no data
  or is in status EXPORTING.
\<close>

definition connected :: "'n AppState \<Rightarrow> bool" where
  "connected s = (case googleAccessToken s of None \<Rightarrow> False | Some t \<Rightarrow> t \<noteq> [])"

definition export_enabled :: "'n AppState \<Rightarrow> bool" where
  "export_enabled s =
     (connected s
      \<and> hasData s
      \<and> (case activeResult s of None \<Rightarrow> True | Some r \<Rightarrow> status r \<noteq> EXPORTING))"

section \<open>The component as a state machine\<close>

text \<open>
  One event per thing that can happen to the component: a handler run from a control the
  page renders, or the settling of a call a handler awaits. A control can be used only
  while the page renders it: a tab can be selected or closed while its result is in the
  collection, the data can be edited while the active result has data, the settings can
  be typed into while the settings dialog is open, the Connect Google button is there
  while no token is held, and the Export Sheet button can be pressed while it is enabled.
  The settling of an extraction or of an export can come at any time and for any id.

  The handlers of the buttons and tabs are those of the latest render and run on the
  current state. An image reaches \<open>handleImageSelect\<close> when its file has been
  read, through the handler that the uploader held when the file was given to it; the
  uploader takes a file only while no result is in status ANALYZING:
  \<^item> \<open>Upload\<close>: a file chosen through the file input and read before the
    collection changes; the handler is the one of the latest render, whose
    \<open>results\<close> is the current collection.
  \<^item> \<open>UploadLate\<close>: a file chosen through the file input under an earlier
    render, whose \<open>results\<close> is the third argument, and read now.
  \<^item> \<open>Drop\<close>: a file dropped on the uploader. \<open>handleDrop\<close> is
    \<open>useCallback(..., [])\<close>, so it stays the one of the first render and calls the
    first render's \<open>handleImageSelect\<close>, whose \<open>results\<close> is empty.
\<close>

datatype 'n event =
    Upload nat string
  | UploadLate nat string "'n ProcessedResult list"
  | Drop nat string
  | Extracted string "string + 'n ExtractedData"
  | SelectTab string
  | CloseTab string
  | RenameTab string string
  | EditData "'n ExtractedData"
  | TryAgain
  | OpenSettings
  | CloseSettings
  | SetSpreadsheetId string
  | SetClientId string
  | ConnectGoogle bool
  | TokenReceived string
  | ExportClick bool bool
  | ExportSettled "'n export_call" "string + unit"

fun apply_event :: "'n event \<Rightarrow> 'n AppState \<Rightarrow> 'n AppState" where
  "apply_event (Upload now base64) s = handleImageSelect now base64 (results s) s"
| "apply_event (UploadLate now base64 rendered) s = handleImageSelect now base64 rendered s"
| "apply_event (Drop now base64) s = handleImageSelect now base64 [] s"
| "apply_event (Extracted newResultId outcome) s = extraction_settled newResultId outcome s"
| "apply_event (SelectTab tabId) s =
     (if tabId \<in> set (map rid (results s)) then setActiveResultId tabId s else s)"
| "apply_event (CloseTab tabId) s =
     (if tabId \<in> set (map rid (results s)) then handleCloseTab tabId s else s)"
| "apply_event (RenameTab tabId newName) s = handleRenameTab tabId newName s"
| "apply_event (EditData newData) s = (if hasData s then editData newData s else s)"
| "apply_event TryAgain s = tryAgain s"
| "apply_event OpenSettings s = s\<lparr>showSettings := True\<rparr>"
| "apply_event CloseSettings s = s\<lparr>showSettings := False\<rparr>"
| "apply_event (SetSpreadsheetId v) s = (if showSettings s then setSpreadsheetId v s else s)"
| "apply_event (SetClientId v) s = (if showSettings s then setClientId v s else s)"
| "apply_event (ConnectGoogle google_loaded) s =
     (if connected s then s else handleGoogleLogin google_loaded s)"
| "apply_event (TokenReceived access_token) s = tokenReceived access_token s"
| "apply_event (ExportClick confirmLogin google_loaded) s =
     (if export_enabled s then fst (handleExportToSheets_begin confirmLogin google_loaded s) else s)"
| "apply_event (ExportSettled c outcome) s = handleExportToSheets_settled c outcome s"

definition run :: "'n event list \<Rightarrow> 'n AppState \<Rightarrow> 'n AppState" where
  "run evs s = fold apply_event evs s"

text \<open>The clock readings of the uploads of a run, in order.\<close>

fun upload_stamps :: "'n event list \<Rightarrow> nat list" where
  "upload_stamps [] = []"
| "upload_stamps (Upload now base64 # evs) = now # upload_stamps evs"
| "upload_stamps (UploadLate now base64 rendered # evs) = now # upload_stamps evs"
| "upload_stamps (Drop now base64 # evs) = now # upload_stamps evs"
| "upload_stamps (e # evs) = upload_stamps evs"

text \<open>The results that carry the active id, as the tab bar marks them.\<close>

definition active_results :: "'n AppState \<Rightarrow> 'n ProcessedResult list" where
  "active_results s = filter (\<lambda>r. activeResultId s = Some (rid r)) (results s)"

section \<open>The claims' own wording, as definitions to compare with the code\<close>

text \<open>The elements of a list in the order they are first encountered, each once.\<close>

fun first_seen :: "'a list \<Rightarrow> 'a list" where
  "first_seen [] = []"
| "first_seen (x # xs) = x # first_seen (filter (\<lambda>y. y \<noteq> x) xs)"

text \<open>A row padded with empty strings up to a given length.\<close>

definition padded_to :: "nat \<Rightarrow> string list \<Rightarrow> string list" where
  "padded_to n vs = vs @ replicate (n - length vs) ''''"

text \<open>No row of the primary table has more values than the table has headers.\<close>

definition rows_fit :: "'n ExtractedData \<Rightarrow> bool" where
  "rows_fit d =
     (case tables d of
        [] \<Rightarrow> True
      | t # _ \<Rightarrow> list_all (\<lambda>r. length (row_values r) \<le> length (headers t)) (rows t))"






text \<open>A string contains another: it occurs in it at some position.\<close>

definition contains :: "string \<Rightarrow> string \<Rightarrow> bool" where
  "contains s sub = (\<exists>p q. s = p @ sub @ q)"

text \<open>The store's invariant: the active id is null or the id of a result in the collection.\<close>

definition active_present :: "'n AppState \<Rightarrow> bool" where
  "active_present s =
     (activeResultId s = None \<or> activeResultId s \<in> Some ` rid ` set (results s))"

section \<open>Runs in which every extraction settles once\<close>

text \<open>
  The extraction that \<open>handleImageSelect\<close> awaits settles at most once, and only
  after the upload that started it. A sequence of events respects this when each
  \<open>Extracted\<close> event takes its id from the extractions that are pending, which are
  listed by the id of their result.
\<close>

fun settles_once :: "'n event list \<Rightarrow> string list \<Rightarrow> bool" where
  "settles_once [] pending = True"
| "settles_once (Upload now base64 # evs) pending =
     settles_once evs ((''result-'' @ string_of_nat now) # pending)"
| "settles_once (UploadLate now base64 rendered # evs) pending =
     settles_once evs ((''result-'' @ string_of_nat now) # pending)"
| "settles_once (Drop now base64 # evs) pending =
     settles_once evs ((''result-'' @ string_of_nat now) # pending)"
| "settles_once (Extracted newResultId outcome # evs) pending =
     (newResultId \<in> set pending \<and> settles_once evs (remove1 newResultId pending))"
| "settles_once (e # evs) pending = settles_once evs pending"

text \<open>The data holds a field or a table.\<close>

definition has_data :: "'n ExtractedData \<Rightarrow> bool" where
  "has_data d = (length (data_fields d) > 0 \<or> length (tables d) > 0)"

text \<open>
  What holds of a store and its pending extractions in such a run when the ids are
  pairwise different: a result whose extraction is pending has no data, and a result
  that has data is in status SUCCESS or EXPORTING.
\<close>

definition settled_inv :: "'n AppState \<Rightarrow> string list \<Rightarrow> bool" where
  "settled_inv s pending =
     (distinct (map rid (results s)) \<and> distinct pending \<and>
      (\<forall>r \<in> set (results s).
         (rid r \<in> set pending \<longrightarrow> \<not> has_data (data r)) \<and>
         (has_data (data r) \<longrightarrow> status r = SUCCESS \<or> status r = EXPORTING)))"

text \<open>What an event does to the extractions that have not settled.\<close>

fun pending_after :: "'n event \<Rightarrow> string list \<Rightarrow> string list" where
  "pending_after (Upload now base64) pending = (''result-'' @ string_of_nat now) # pending"
| "pending_after (UploadLate now base64 rendered) pending =
     (''result-'' @ string_of_nat now) # pending"
| "pending_after (Drop now base64) pending = (''result-'' @ string_of_nat now) # pending"
| "pending_after (Extracted newResultId outcome) pending = remove1 newResultId pending"
| "pending_after e pending = pending"

section \<open>Sample inputs\<close>

text \<open>
  A rendering of numbers for the samples, whose numbers are integers: the decimal
  digits, with a minus sign in front of a negative one.
\<close>

definition string_of_int :: "int \<Rightarrow> string" where
  "string_of_int i =
     (if i < 0 then CHR ''-'' # string_of_nat (nat (- i)) else string_of_nat (nat i))"

text \<open>The spec's scenario: one field, one table with two rows.\<close>

definition scenario_items :: "int ExtractedData" where
  "scenario_items =
     \<lparr>data_fields = [\<lparr>label = ''Date'', field_value = VString ''2024-01-01''\<rparr>],
      tables = [\<lparr>table_name = ''Items'', headers = [''Item'', ''Qty''],
                 rows = [\<lparr>row_values = [''Pen'', ''3'']\<rparr>, \<lparr>row_values = [''Book'', ''1'']\<rparr>]\<rparr>]\<rparr>"

text \<open>Two fields with the same label, no table.\<close>

definition dup_labels :: "int ExtractedData" where
  "dup_labels =
     \<lparr>data_fields = [\<lparr>label = ''A'', field_value = VString ''1''\<rparr>,
                     \<lparr>label = ''A'', field_value = VNumber 2\<rparr>],
      tables = []\<rparr>"

text \<open>A table row with more values than the table has headers.\<close>

definition long_row :: "int ExtractedData" where
  "long_row =
     \<lparr>data_fields = [],
      tables = [\<lparr>table_name = ''T'', headers = [''H''],
                 rows = [\<lparr>row_values = [''x'', ''y'']\<rparr>]\<rparr>]\<rparr>"

text \<open>A table row with fewer values than the table has headers.\<close>

definition short_row :: "int ExtractedData" where
  "short_row =
     \<lparr>data_fields = [],
      tables = [\<lparr>table_name = ''T'', headers = [''A'', ''B''],
                 rows = [\<lparr>row_values = [''1'']\<rparr>]\<rparr>]\<rparr>"

text \<open>The spec's scenario for the CSV: two fields, no table.\<close>

definition scenario_invoice :: "int ExtractedData" where
  "scenario_invoice =
     \<lparr>data_fields = [\<lparr>label = ''Invoice'', field_value = VString ''A1''\<rparr>,
                     \<lparr>label = ''Total'', field_value = VNumber 9\<rparr>],
      tables = []\<rparr>"

text \<open>
  Three tabs, the middle one selected, each image chosen through the file input after
  the extraction of the one before has settled; and a single tab.
\<close>

definition three_uploads :: "int event list" where
  "three_uploads =
     [Upload 1 ''img-a'', Extracted ''result-1'' (Inr scenario_items),
      Upload 2 ''img-b'', Extracted ''result-2'' (Inl ''The model is overloaded''),
      Upload 3 ''img-c'', Extracted ''result-3'' (Inr scenario_items),
      SelectTab ''result-2'']"

definition three_tabs :: "int AppState" where
  "three_tabs = run three_uploads initial_state"

definition one_tab :: "int AppState" where
  "one_tab = run [Upload 1 ''img-a''] initial_state"

text \<open>
  One upload whose extraction succeeded, with the spreadsheet id set and a token held:
  the Export Sheet button can be pressed.
\<close>

definition ready_events :: "int event list" where
  "ready_events =
     [Upload 1 ''img-a'', Extracted ''result-1'' (Inr scenario_items),
      OpenSettings, SetSpreadsheetId ''sheet-id'', CloseSettings, TokenReceived ''token'']"

definition ready_to_export :: "int AppState" where
  "ready_to_export = run ready_events initial_state"

text \<open>
  Two files chosen through the file input before either is read, whose uploads read the
  same \<open>Date.now()\<close>, so that both results have the id \<open>result-5\<close>; both
  handlers are of the first render, whose \<open>results\<close> is empty. The first
  extraction succeeds, the second fails. (The readings in the samples are small
  numbers; only whether two of them are equal matters.)
\<close>

definition same_stamp :: "int event list" where
  "same_stamp = [Upload 5 ''img-a'', UploadLate 5 ''img-b'' []]"

definition error_events :: "int event list" where
  "error_events =
     same_stamp @
     [Extracted ''result-5'' (Inr scenario_items),
      Extracted ''result-5'' (Inl ''The model is overloaded''),
      OpenSettings, SetSpreadsheetId ''sheet-id'', CloseSettings, TokenReceived ''token'']"

definition error_with_data :: "int AppState" where
  "error_with_data = run error_events initial_state"

text \<open>
  Three uploads with the first tab closed before the third upload, each extraction
  succeeding, then the spreadsheet id set and a token held.
\<close>

definition two_named_alike :: "int AppState" where
  "two_named_alike =
     run [Upload 1 ''img-a'', Extracted ''result-1'' (Inr scenario_items),
          Upload 2 ''img-b'', Extracted ''result-2'' (Inr scenario_items),
          CloseTab ''result-1'',
          Upload 3 ''img-c'', Extracted ''result-3'' (Inr scenario_items),
          OpenSettings, SetSpreadsheetId ''sheet-id'', CloseSettings, TokenReceived ''token'']
       initial_state"

text \<open>
  One image dropped on the uploader and extracted, then a second image dropped; and the
  same two images chosen through the file input.
\<close>

definition dropped_once :: "int event list" where
  "dropped_once = [Drop 1 ''img-a'', Extracted ''result-1'' (Inr scenario_items)]"

definition dropped_twice :: "int event list" where
  "dropped_twice = dropped_once @ [Drop 2 ''img-b'']"

definition chosen_twice :: "int event list" where
  "chosen_twice =
     [Upload 1 ''img-a'', Extracted ''result-1'' (Inr scenario_items), Upload 2 ''img-b'']"

text \<open>Remote sides: a body with no key, and responses built from it.\<close>

definition empty_body :: api_body where
  "empty_body = \<lparr>error_message = None, sheet_titles = None, values_rows = None\<rparr>"

text \<open>Every call is answered with an ok response; the spreadsheet has one sheet.\<close>

definition remote_all_ok :: remote where
  "remote_all_ok =
     \<lparr>metaResponse = Resolved True (Inr (empty_body\<lparr>sheet_titles := Some [''Sheet1'']\<rparr>)),
      addSheetResponse = Resolved True (Inr empty_body),
      getResponse = Resolved True (Inr empty_body),
      putResponse = Resolved True (Inr empty_body),
      appendResponse = Resolved True (Inr empty_body)\<rparr>"

text \<open>No call gets a response.\<close>

definition remote_down :: remote where
  "remote_down =
     \<lparr>metaResponse = Rejected ''Failed to fetch'',
      addSheetResponse = Rejected ''Failed to fetch'',
      getResponse = Rejected ''Failed to fetch'',
      putResponse = Rejected ''Failed to fetch'',
      appendResponse = Rejected ''Failed to fetch''\<rparr>"

text \<open>The read of row 1 gets no response; every other call is answered ok.\<close>

definition remote_get_rejected :: remote where
  "remote_get_rejected = remote_all_ok\<lparr>getResponse := Rejected ''Failed to fetch''\<rparr>"

text \<open>The read of row 1 is answered ok with a body that is not JSON.\<close>

definition remote_get_garbled :: remote where
  "remote_get_garbled =
     remote_all_ok\<lparr>getResponse := Resolved True (Inl ''Unexpected end of JSON input'')\<rparr>"

text \<open>
  The metadata and the append are answered ok; the creation of the sheet, the read of
  row 1 and the overwrite of row 1 are answered with a response that is not ok.
\<close>

definition remote_refusing :: remote where
  "remote_refusing =
     remote_all_ok
       \<lparr>addSheetResponse :=
          Resolved False (Inr (empty_body\<lparr>error_message := Some ''The caller does not have permission''\<rparr>)),
        getResponse := Resolved False (Inr empty_body),
        putResponse :=
          Resolved False (Inr (empty_body\<lparr>error_message := Some ''The caller does not have permission''\<rparr>))\<rparr>"

text \<open>The metadata request is answered 401 with a message that says so.\<close>

definition remote_unauthorized :: remote where
  "remote_unauthorized =
     remote_all_ok
       \<lparr>metaResponse :=
          Resolved False (Inr (empty_body\<lparr>error_message := Some ''Error 401: unauthorized''\<rparr>))\<rparr>"

section \<open>Lemmas on the flattening\<close>

lemma pad_row_eq: "pad_row rowVals n = padded_to n rowVals"
proof (induction rowVals n rule: pad_row.induct)
  case (1 rowVals n)
  show ?case
  proof (cases "length rowVals < n")
    case True
    then have "n - length rowVals = Suc (n - Suc (length rowVals))" by simp
    with True "1.IH" show ?thesis
      by (subst pad_row.simps) (simp add: padded_to_def replicate_app_Cons_same)
  next
    case False
    then show ?thesis
      by (subst pad_row.simps) (simp add: padded_to_def)
  qed
qed

lemma fold_push_map: "fold (\<lambda>x acc. acc @ [f x]) xs ys = ys @ map f xs"
  by (induction xs arbitrary: ys) simp_all

lemma rowsToAppend_no_table:
  "tables d = [] \<Longrightarrow> rowsToAppend num d = [globalValues num d]"
  by (simp add: rowsToAppend_def)

lemma rowsToAppend_table:
  "tables d = t # ts \<Longrightarrow>
   rowsToAppend num d =
     map (\<lambda>r. globalValues num d @ padded_to (length (headers t)) (row_values r)) (rows t)"
  by (simp add: rowsToAppend_def fold_push_map pad_row_eq)

lemma indexOf_notin: "x \<notin> set xs \<Longrightarrow> indexOf xs x = - 1"
  by (induction xs) auto

lemma indexOf_nth_distinct:
  "distinct xs \<Longrightarrow> i < length xs \<Longrightarrow> indexOf xs (xs ! i) = int i"
proof (induction xs arbitrary: i)
  case Nil
  then show ?case by simp
next
  case (Cons y ys)
  show ?case
  proof (cases i)
    case 0
    then show ?thesis by simp
  next
    case (Suc j)
    with Cons.prems have j: "j < length ys" and d: "distinct ys" and ny: "y \<notin> set ys"
      by simp_all
    from j ny have "ys ! j \<noteq> y" by (metis nth_mem)
    with Cons.IH [OF d j] Suc show ?thesis by (simp add: Let_def)
  qed
qed

lemma reproject_row_identity:
  assumes "distinct finalHs" and "length localRow = length finalHs"
  shows "map (\<lambda>header. (let localIndex = indexOf finalHs header
                         in if localIndex \<noteq> - 1 then js_get localRow localIndex else Some ''''))
             finalHs = map Some localRow"
proof (rule nth_equalityI)
  show "length (map (\<lambda>header. (let localIndex = indexOf finalHs header
                         in if localIndex \<noteq> - 1 then js_get localRow localIndex else Some ''''))
             finalHs) = length (map Some localRow)"
    using assms by simp
next
  fix i
  assume "i < length (map (\<lambda>header. (let localIndex = indexOf finalHs header
                         in if localIndex \<noteq> - 1 then js_get localRow localIndex else Some ''''))
             finalHs)"
  then have i: "i < length finalHs" by simp
  with assms have "indexOf finalHs (finalHs ! i) = int i"
    by (simp add: indexOf_nth_distinct)
  with i assms show "map (\<lambda>header. (let localIndex = indexOf finalHs header
                         in if localIndex \<noteq> - 1 then js_get localRow localIndex else Some ''''))
             finalHs ! i = map Some localRow ! i"
    by (simp add: js_get_def)
qed

lemma length_padded_to: "length vs \<le> n \<Longrightarrow> length (padded_to n vs) = n"
  by (simp add: padded_to_def)

lemma length_globalValues: "length (globalValues num d) = length (globalHeaders d)"
  by (simp add: globalValues_def globalHeaders_def)

lemma rowsToAppend_length:
  assumes "rows_fit d" and "r \<in> set (rowsToAppend num d)"
  shows "length r = length (finalHeaders d)"
proof (cases "tables d")
  case Nil
  with assms show ?thesis
    by (simp add: rowsToAppend_no_table finalHeaders_def length_globalValues)
next
  case (Cons t ts)
  with assms(2) obtain tr where tr: "tr \<in> set (rows t)"
      and r: "r = globalValues num d @ padded_to (length (headers t)) (row_values tr)"
    by (auto simp: rowsToAppend_table)
  from assms(1) Cons tr have "length (row_values tr) \<le> length (headers t)"
    by (simp add: rows_fit_def list_all_iff)
  with r Cons show ?thesis
    by (simp add: finalHeaders_def length_globalValues length_padded_to)
qed

lemma first_seen_distinct: "distinct xs \<Longrightarrow> first_seen xs = xs"
proof (induction xs)
  case Nil
  then show ?case by simp
next
  case (Cons x xs)
  then have "filter (\<lambda>y. y \<noteq> x) xs = xs" by (auto intro: filter_True)
  with Cons show ?case by simp
qed

lemma fold_header_union:
  "fold (\<lambda>h (masterHeaders, headersChanged).
             if h \<in> set masterHeaders then (masterHeaders, headersChanged)
             else (masterHeaders @ [h], True)) F (M, c)
   = (M @ first_seen (filter (\<lambda>h. h \<notin> set M) F), c \<or> \<not> set F \<subseteq> set M)"
proof (induction F arbitrary: M c)
  case Nil
  then show ?case by simp
next
  case (Cons h F)
  show ?case
  proof (cases "h \<in> set M")
    case True
    then show ?thesis by (simp add: Cons.IH)
  next
    case False
    have "filter (\<lambda>x. x \<notin> set (M @ [h])) F = filter (\<lambda>y. y \<noteq> h) (filter (\<lambda>x. x \<notin> set M) F)"
      by (induction F) auto
    with False show ?thesis by (simp add: Cons.IH)
  qed
qed

lemma masterHeaders_eq:
  "masterHeaders E F = E @ first_seen (filter (\<lambda>h. h \<notin> set E) F)"
  by (simp add: masterHeaders_def computeHeaderUnion_def fold_header_union)

lemma headersChanged_eq: "headersChanged E F = (\<not> set F \<subseteq> set E)"
  by (simp add: headersChanged_def computeHeaderUnion_def fold_header_union)

section \<open>Header union and reprojection\<close>

text \<open>
  Claim C2. For every list \<open>E\<close> of existing remote headers and every list \<open>F\<close> of
  local headers, the reconciled master headers are \<open>E\<close> itself, unchanged and in its
  order, followed by the elements of \<open>F\<close> that do not occur in \<open>E\<close>, each once,
  in the order in which \<open>F\<close> first shows them.
\<close>

theorem C2_header_union:
  "masterHeaders E F = E @ first_seen (filter (\<lambda>h. h \<notin> set E) F) \<and>
   take (length E) (masterHeaders E F) = E"
  by (simp add: masterHeaders_eq)

text \<open>
  Claim C1, amended. When the flattened headers of \<open>d\<close> are pairwise distinct and no
  row of the primary table has more values than the table has headers, an empty sheet
  gives master headers equal to the flattened headers, and reprojecting onto them returns
  every flattened row as it is.
\<close>

theorem C1_reprojection_identity:
  assumes "distinct (finalHeaders d)" and "rows_fit d"
  shows "masterHeaders [] (finalHeaders d) = finalHeaders d \<and>
         formattedRows (finalHeaders d) (finalHeaders d) (rowsToAppend num d)
           = map (map Some) (rowsToAppend num d)"
proof
  from assms(1) show "masterHeaders [] (finalHeaders d) = finalHeaders d"
    by (simp add: masterHeaders_eq first_seen_distinct)
next
  have "\<And>r. r \<in> set (rowsToAppend num d) \<Longrightarrow>
          map (\<lambda>header. (let localIndex = indexOf (finalHeaders d) header
                         in if localIndex \<noteq> - 1 then js_get r localIndex else Some ''''))
             (finalHeaders d) = map Some r"
    using assms by (intro reproject_row_identity rowsToAppend_length)
  then show "formattedRows (finalHeaders d) (finalHeaders d) (rowsToAppend num d)
           = map (map Some) (rowsToAppend num d)"
    unfolding formattedRows_def by (rule map_cong [OF refl])
qed

theorem C1_reprojection_identity_witness:
  "distinct (finalHeaders scenario_items) \<and> rows_fit scenario_items \<and>
   masterHeaders [] (finalHeaders scenario_items) = [''Date'', ''Item'', ''Qty''] \<and>
   formattedRows (finalHeaders scenario_items) (finalHeaders scenario_items)
       (rowsToAppend string_of_int scenario_items)
     = [[Some ''2024-01-01'', Some ''Pen'', Some ''3''],
        [Some ''2024-01-01'', Some ''Book'', Some ''1'']]"
proof -
  have fh: "finalHeaders scenario_items = [''Date'', ''Item'', ''Qty'']"
    by (simp add: scenario_items_def finalHeaders_def globalHeaders_def)
  have h1: "distinct (finalHeaders scenario_items)"
    by (simp add: fh)
  have h2: "rows_fit scenario_items"
    by (simp add: scenario_items_def rows_fit_def)
  have rs: "rowsToAppend string_of_int scenario_items
              = [[''2024-01-01'', ''Pen'', ''3''], [''2024-01-01'', ''Book'', ''1'']]"
    by (simp add: scenario_items_def rowsToAppend_def globalValues_def pad_row_eq padded_to_def)
  from C1_reprojection_identity [OF h1 h2, of string_of_int] h1 h2 show ?thesis
    by (simp add: fh rs)
qed

text \<open>
  The claim as it is written fails in two ways. With two fields labelled \<open>A\<close>, both
  columns look their value up at the first \<open>A\<close>, so the second value is replaced by
  the first; and the master headers the code computes for an empty sheet are the single
  \<open>A\<close>, so the second value is dropped. With a table row of two values under one
  header, the row is flattened with both values and reprojected with one.
\<close>

theorem C1_counterexample:
  "finalHeaders dup_labels = [''A'', ''A''] \<and>
   rowsToAppend string_of_int dup_labels = [[''1'', ''2'']] \<and>
   formattedRows (finalHeaders dup_labels) (finalHeaders dup_labels)
       (rowsToAppend string_of_int dup_labels) = [[Some ''1'', Some ''1'']] \<and>
   masterHeaders [] (finalHeaders dup_labels) = [''A''] \<and>
   formattedRows (masterHeaders [] (finalHeaders dup_labels)) (finalHeaders dup_labels)
       (rowsToAppend string_of_int dup_labels) = [[Some ''1'']] \<and>
   finalHeaders long_row = [''H''] \<and>
   rowsToAppend string_of_int long_row = [[''x'', ''y'']] \<and>
   formattedRows (finalHeaders long_row) (finalHeaders long_row)
       (rowsToAppend string_of_int long_row) = [[Some ''x'']]"
  by (simp add: dup_labels_def long_row_def finalHeaders_def globalHeaders_def
      rowsToAppend_def globalValues_def formattedRows_def js_get_def pad_row_eq padded_to_def
      masterHeaders_def computeHeaderUnion_def string_of_int_def string_of_nat.simps
      digit_char_def)

section \<open>Flattening\<close>

text \<open>
  Claim C3. With no table, the flattened headers are the field labels and there is exactly
  one row, the field values. With at least one table, the flattened headers are the field
  labels followed by the first table's headers, and there is one row per row of the first
  table: the field values followed by that row's values, padded with empty strings up to
  the number of the table's headers. The tables after the first appear in neither. The
  spec's scenario is the last two lines.
\<close>

theorem C3_flattening:
  "finalHeaders \<lparr>data_fields = fs, tables = []\<rparr> = map label fs \<and>
   rowsToAppend num \<lparr>data_fields = fs, tables = []\<rparr>
     = [map (\<lambda>f. String_of num (field_value f)) fs] \<and>
   finalHeaders \<lparr>data_fields = fs, tables = t # ts\<rparr> = map label fs @ headers t \<and>
   rowsToAppend num \<lparr>data_fields = fs, tables = t # ts\<rparr>
     = map (\<lambda>r. map (\<lambda>f. String_of num (field_value f)) fs
                 @ padded_to (length (headers t)) (row_values r))
           (rows t) \<and>
   finalHeaders scenario_items = [''Date'', ''Item'', ''Qty''] \<and>
   rowsToAppend string_of_int scenario_items
     = [[''2024-01-01'', ''Pen'', ''3''], [''2024-01-01'', ''Book'', ''1'']]"
  by (simp add: finalHeaders_def globalHeaders_def rowsToAppend_def globalValues_def
      fold_push_map pad_row_eq scenario_items_def padded_to_def)

section \<open>CSV export\<close>

text \<open>
  The spec's scenario for the CSV: two fields and no table give the header row
  \<open>"Invoice","Total"\<close> and the single data row \<open>"A1","9"\<close>.
\<close>

lemma csvContent_scenario:
  "csvContent string_of_int scenario_invoice =
     ''data:text/csv;charset=utf-8,''
     @ [CHR 0x22] @ ''Invoice'' @ [CHR 0x22] @ '','' @ [CHR 0x22] @ ''Total'' @ [CHR 0x22]
     @ [CHR 0x0A]
     @ [CHR 0x22] @ ''A1'' @ [CHR 0x22] @ '','' @ [CHR 0x22] @ ''9'' @ [CHR 0x22]"
  by (simp add: csvContent_def downloadCSV_table_def scenario_invoice_def string_of_int_def
      string_of_nat.simps digit_char_def)

text \<open>
  Claim C5. The spreadsheet export pads a short table row with empty strings up to the
  number of headers; the CSV export does not. For one table with the headers \<open>A\<close> and
  \<open>B\<close> and one row holding the single value \<open>1\<close>, the row sent to the spreadsheet
  has two cells and the row written to the CSV has one, under a header row of two.
\<close>

theorem C5_csv_row_not_padded:
  "rowsToAppend string_of_int short_row = [[''1'', '''']] \<and>
   downloadCSV_table string_of_int short_row = ([''A'', ''B''], [[''1'']])"
  by (simp add: short_row_def downloadCSV_table_def rowsToAppend_def globalValues_def
      pad_row_eq padded_to_def)

section \<open>Lemmas on the session store\<close>

lemmas app_defs =
  run_def initial_state_def handleImageSelect_def extraction_settled_def updateResult_def
  spread_def no_updates_def handleCloseTab_def handleRenameTab_def setActiveResultId_def
  editData_def tryAgain_def setSpreadsheetId_def setClientId_def handleGoogleLogin_def
  tokenReceived_def handleExportToSheets_begin_def handleExportToSheets_settled_def
  handleExportToSheets_def activeResult_def hasData_def export_enabled_def connected_def
  or_default_def string_of_nat.simps digit_char_def Let_def



lemma string_of_nat_nonempty: "string_of_nat n \<noteq> []"
  by (subst string_of_nat.simps) simp

lemma digit_char_inj:
  assumes "a < 10" and "b < 10" and "digit_char a = digit_char b"
  shows "a = b"
proof -
  have d: "distinct ''0123456789''" by simp
  have l: "length ''0123456789'' = 10" by simp
  from assms d l show ?thesis
    unfolding digit_char_def by (metis nth_eq_iff_index_eq)
qed

lemma string_of_nat_inj: "string_of_nat m = string_of_nat n \<Longrightarrow> m = n"
proof (induction m arbitrary: n rule: string_of_nat.induct)
  case (1 m)
  show ?case
  proof (cases "m < 10")
    case m: True
    show ?thesis
    proof (cases "n < 10")
      case True
      with m "1.prems" show ?thesis
        by (simp add: string_of_nat.simps [of m] string_of_nat.simps [of n] digit_char_inj)
    next
      case False
      with m "1.prems" string_of_nat_nonempty [of "n div 10"] show ?thesis
        by (simp add: string_of_nat.simps [of m] string_of_nat.simps [of n])
    qed
  next
    case m: False
    show ?thesis
    proof (cases "n < 10")
      case True
      with m "1.prems" string_of_nat_nonempty [of "m div 10"] show ?thesis
        by (simp add: string_of_nat.simps [of m] string_of_nat.simps [of n])
    next
      case False
      with m "1.prems" have a: "string_of_nat (m div 10) = string_of_nat (n div 10)"
        and b: "digit_char (m mod 10) = digit_char (n mod 10)"
        by (simp_all add: string_of_nat.simps [of m] string_of_nat.simps [of n])
      from "1.IH" [OF m a] have "m div 10 = n div 10" .
      moreover from b have "m mod 10 = n mod 10" by (simp add: digit_char_inj)
      ultimately show ?thesis by (metis div_mult_mod_eq)
    qed
  qed
qed

lemma spread_rid: "p_id u = None \<Longrightarrow> rid (spread r u) = rid r"
  by (simp add: spread_def)

lemma spread_status_only: "spread r (no_updates\<lparr>p_status := Some v\<rparr>) = r\<lparr>status := v\<rparr>"
  by (simp add: spread_def no_updates_def)

lemma updateResult_ids:
  "p_id u = None \<Longrightarrow> map rid (results (updateResult i u s)) = map rid (results s)"
  by (simp add: updateResult_def spread_rid)

lemma updateResult_active: "activeResultId (updateResult i u s) = activeResultId s"
  by (simp add: updateResult_def)

lemma begin_ids:
  "map rid (results (fst (handleExportToSheets_begin c g s))) = map rid (results s)"
  by (simp add: handleExportToSheets_begin_def handleGoogleLogin_def Let_def updateResult_ids
      no_updates_def split: option.splits)

lemma begin_active:
  "activeResultId (fst (handleExportToSheets_begin c g s)) = activeResultId s"
  by (simp add: handleExportToSheets_begin_def handleGoogleLogin_def Let_def updateResult_active
      split: option.splits)

lemma settled_ids:
  "map rid (results (handleExportToSheets_settled c out s)) = map rid (results s)"
  by (simp add: handleExportToSheets_settled_def Let_def updateResult_ids no_updates_def
      split: sum.splits)

lemma settled_active:
  "activeResultId (handleExportToSheets_settled c out s) = activeResultId s"
  by (simp add: handleExportToSheets_settled_def Let_def updateResult_active split: sum.splits)

lemma ids_apply_event:
  "map rid (results (apply_event e s)) =
     (case e of
        CloseTab t \<Rightarrow> filter (\<lambda>i. i \<noteq> t) (map rid (results s))
      | _ \<Rightarrow> map rid (results s))
     @ map (\<lambda>t. ''result-'' @ string_of_nat t) (upload_stamps [e])"
proof (cases e)
  case (Upload now b)
  then show ?thesis by (simp add: handleImageSelect_def Let_def)
next
  case (UploadLate now b rendered)
  then show ?thesis by (simp add: handleImageSelect_def Let_def)
next
  case (Drop now b)
  then show ?thesis by (simp add: handleImageSelect_def Let_def)
next
  case (Extracted i out)
  then show ?thesis
    by (simp add: extraction_settled_def updateResult_ids no_updates_def split: sum.splits)
next
  case (CloseTab t)
  have "t \<notin> rid ` set (results s) \<Longrightarrow> filter (\<lambda>i. i \<noteq> t) (map rid (results s)) = map rid (results s)"
    by (auto intro: filter_True)
  with CloseTab show ?thesis
    by (simp add: handleCloseTab_def Let_def filter_map comp_def)
next
  case (EditData d)
  then show ?thesis
    by (simp add: editData_def updateResult_ids no_updates_def split: option.splits)
next
  case (ConnectGoogle g)
  then show ?thesis by (simp add: handleGoogleLogin_def)
next
  case TryAgain
  then show ?thesis
    by (simp add: tryAgain_def updateResult_ids no_updates_def split: option.splits)
next
  case (ExportClick c g)
  then show ?thesis by (simp add: begin_ids)
next
  case (ExportSettled c out)
  then show ?thesis by (simp add: settled_ids)
qed (simp_all add: setActiveResultId_def handleRenameTab_def updateResult_ids no_updates_def
      setSpreadsheetId_def setClientId_def handleGoogleLogin_def tokenReceived_def)

lemma active_apply_event:
  "activeResultId (apply_event e s) =
     (case e of
        Upload now b \<Rightarrow> Some (''result-'' @ string_of_nat now)
      | UploadLate now b rendered \<Rightarrow> Some (''result-'' @ string_of_nat now)
      | Drop now b \<Rightarrow> Some (''result-'' @ string_of_nat now)
      | SelectTab t \<Rightarrow> if t \<in> rid ` set (results s) then Some t else activeResultId s
      | CloseTab t \<Rightarrow>
          if t \<in> rid ` set (results s) \<and> activeResultId s = Some t
          then (if filter (\<lambda>r. rid r \<noteq> t) (results s) \<noteq> []
                then Some (rid (last (filter (\<lambda>r. rid r \<noteq> t) (results s)))) else None)
          else activeResultId s
      | _ \<Rightarrow> activeResultId s)"
proof (cases e)
  case (Extracted i out)
  then show ?thesis
    by (simp add: extraction_settled_def updateResult_active split: sum.splits)
next
  case (EditData d)
  then show ?thesis
    by (simp add: editData_def updateResult_active split: option.splits)
next
  case (ConnectGoogle g)
  then show ?thesis by (simp add: handleGoogleLogin_def)
next
  case TryAgain
  then show ?thesis
    by (simp add: tryAgain_def updateResult_active split: option.splits)
next
  case (ExportClick c g)
  then show ?thesis by (simp add: begin_active)
next
  case (ExportSettled c out)
  then show ?thesis by (simp add: settled_active)
qed (simp_all add: handleImageSelect_def handleCloseTab_def Let_def setActiveResultId_def
      handleRenameTab_def updateResult_active setSpreadsheetId_def setClientId_def
      handleGoogleLogin_def tokenReceived_def)

lemma idset_apply_event:
  "rid ` set (results (apply_event e s)) =
     (case e of
        CloseTab t \<Rightarrow> rid ` set (results s) - {t}
      | _ \<Rightarrow> rid ` set (results s))
     \<union> (\<lambda>t. ''result-'' @ string_of_nat t) ` set (upload_stamps [e])"
proof -
  have "rid ` set (results (apply_event e s)) = set (map rid (results (apply_event e s)))"
    by simp
  also have "\<dots> = (case e of
        CloseTab t \<Rightarrow> rid ` set (results s) - {t}
      | _ \<Rightarrow> rid ` set (results s))
     \<union> (\<lambda>t. ''result-'' @ string_of_nat t) ` set (upload_stamps [e])"
    unfolding ids_apply_event by (cases e) auto
  finally show ?thesis .
qed

lemma active_present_apply_event:
  assumes "active_present s"
  shows "active_present (apply_event e s)"
proof (cases e)
  case (CloseTab t)
  let ?rem = "filter (\<lambda>r. rid r \<noteq> t) (results s)"
  have l: "?rem \<noteq> [] \<Longrightarrow> rid (last ?rem) \<in> rid ` set (results s) - {t}"
    using last_in_set [of ?rem] by auto
  from assms CloseTab l show ?thesis
    unfolding active_present_def idset_apply_event active_apply_event
    by (auto split: if_splits)
next
  case (Upload now b)
  then show ?thesis
    unfolding active_present_def idset_apply_event active_apply_event by simp
next
  case (UploadLate now b rendered)
  then show ?thesis
    unfolding active_present_def idset_apply_event active_apply_event by simp
next
  case (Drop now b)
  then show ?thesis
    unfolding active_present_def idset_apply_event active_apply_event by simp
next
  case (SelectTab t)
  with assms show ?thesis
    unfolding active_present_def idset_apply_event active_apply_event by auto
qed (use assms in \<open>simp_all add: active_present_def idset_apply_event active_apply_event del: apply_event.simps\<close>)

lemma run_snoc: "run (evs @ [e]) s = apply_event e (run evs s)"
  by (simp add: run_def)

lemma active_present_run: "active_present (run evs initial_state)"
proof (induction evs rule: rev_induct)
  case Nil
  show ?case by (simp add: run_def initial_state_def active_present_def)
next
  case (snoc e evs)
  then show ?case by (simp add: run_snoc active_present_apply_event)
qed

lemma upload_stamps_append: "upload_stamps (evs @ evs') = upload_stamps evs @ upload_stamps evs'"
  by (induction evs rule: upload_stamps.induct) simp_all

lemma ids_run:
  "set (map rid (results (run evs initial_state)))
     \<subseteq> (\<lambda>t. ''result-'' @ string_of_nat t) ` set (upload_stamps evs)
   \<and> (distinct (upload_stamps evs) \<longrightarrow> distinct (map rid (results (run evs initial_state))))"
proof (induction evs rule: rev_induct)
  case Nil
  show ?case by (simp add: run_def initial_state_def)
next
  case (snoc e evs)
  let ?s = "run evs initial_state"
  from snoc have sub: "set (map rid (results ?s))
         \<subseteq> (\<lambda>t. ''result-'' @ string_of_nat t) ` set (upload_stamps evs)"
    and dis: "distinct (upload_stamps evs) \<Longrightarrow> distinct (map rid (results ?s))"
    by simp_all
  have fresh: "''result-'' @ string_of_nat now \<notin> set (map rid (results ?s))"
    if "now \<notin> set (upload_stamps evs)" for now
  proof
    assume "''result-'' @ string_of_nat now \<in> set (map rid (results ?s))"
    with sub obtain t where "t \<in> set (upload_stamps evs)"
      and "''result-'' @ string_of_nat now = ''result-'' @ string_of_nat t" by blast
    with that show False by (auto dest: string_of_nat_inj)
  qed
  show ?case
  proof (cases e)
    case (Upload now b)
    with sub dis fresh [of now] show ?thesis
      unfolding run_snoc ids_apply_event upload_stamps_append by auto
  next
    case (UploadLate now b rendered)
    with sub dis fresh [of now] show ?thesis
      unfolding run_snoc ids_apply_event upload_stamps_append by auto
  next
    case (Drop now b)
    with sub dis fresh [of now] show ?thesis
      unfolding run_snoc ids_apply_event upload_stamps_append by auto
  next
    case (CloseTab t)
    with sub dis show ?thesis
      unfolding run_snoc ids_apply_event upload_stamps_append by auto
  qed (use sub dis in \<open>simp_all add: run_snoc ids_apply_event upload_stamps_append del: apply_event.simps set_map\<close>)
qed

lemma at_most_one_with_key:
  "distinct (map f xs) \<Longrightarrow> length (filter (\<lambda>x. a = Some (f x)) xs) \<le> 1"
proof (induction xs)
  case Nil
  then show ?case by simp
next
  case (Cons x xs)
  show ?case
  proof (cases "a = Some (f x)")
    case True
    with Cons.prems have "filter (\<lambda>y. a = Some (f y)) xs = []"
      by (auto simp: filter_empty_conv)
    with True show ?thesis by simp
  next
    case False
    with Cons show ?thesis by simp
  qed
qed

section \<open>Closing a tab\<close>

text \<open>
  Claim C7. \<open>closeResult(id)\<close> keeps exactly the results whose id is not \<open>id\<close>, in
  their order, so no result with that id remains. If the closed result was the active one
  and a result remains, the new active id is the id of the last remaining result. If no
  result remains, the active id is null; this is for a store whose active id was null or
  the id of a result in the collection, as it is in every state the component reaches
  (\<open>active_present_run\<close>). If the closed result was not the active one, the active
  id is unchanged.
\<close>

theorem C7_closeResult:
  "results (handleCloseTab tabId s) = filter (\<lambda>r. rid r \<noteq> tabId) (results s) \<and>
   tabId \<notin> rid ` set (results (handleCloseTab tabId s)) \<and>
   (activeResultId s = Some tabId \<and> results (handleCloseTab tabId s) \<noteq> []
      \<longrightarrow> activeResultId (handleCloseTab tabId s)
            = Some (rid (last (results (handleCloseTab tabId s))))) \<and>
   (active_present s \<and> results (handleCloseTab tabId s) = []
      \<longrightarrow> activeResultId (handleCloseTab tabId s) = None) \<and>
   (activeResultId s \<noteq> Some tabId
      \<longrightarrow> activeResultId (handleCloseTab tabId s) = activeResultId s)"
proof -
  let ?rem = "filter (\<lambda>r. rid r \<noteq> tabId) (results s)"
  have res: "results (handleCloseTab tabId s) = ?rem"
    by (simp add: handleCloseTab_def Let_def)
  have gone: "tabId \<notin> rid ` set ?rem" by auto
  have act: "activeResultId s = Some tabId \<Longrightarrow> ?rem \<noteq> []
      \<Longrightarrow> activeResultId (handleCloseTab tabId s) = Some (rid (last ?rem))"
    by (simp add: handleCloseTab_def Let_def)
  have keep: "activeResultId s \<noteq> Some tabId
      \<Longrightarrow> activeResultId (handleCloseTab tabId s) = activeResultId s"
    by (simp add: handleCloseTab_def Let_def)
  have none: "activeResultId (handleCloseTab tabId s) = None"
    if inv: "active_present s" and emp: "?rem = []"
  proof (cases "activeResultId s = Some tabId")
    case True
    with emp show ?thesis by (simp add: handleCloseTab_def Let_def)
  next
    case False
    from emp have all: "\<forall>r \<in> set (results s). rid r = tabId"
      by (simp add: filter_empty_conv)
    with inv False have "activeResultId s = None"
      by (auto simp: active_present_def)
    with keep [OF False] show ?thesis by simp
  qed
  from res gone act keep none show ?thesis by simp
qed

theorem C7_closeResult_witness:
  "activeResultId three_tabs = Some ''result-2'' \<and>
   map rid (results (handleCloseTab ''result-2'' three_tabs)) = [''result-1'', ''result-3''] \<and>
   activeResultId (handleCloseTab ''result-2'' three_tabs) = Some ''result-3'' \<and>
   map rid (results (handleCloseTab ''result-1'' three_tabs)) = [''result-2'', ''result-3''] \<and>
   activeResultId (handleCloseTab ''result-1'' three_tabs) = Some ''result-2'' \<and>
   active_present one_tab \<and>
   results (handleCloseTab ''result-1'' one_tab) = [] \<and>
   activeResultId (handleCloseTab ''result-1'' one_tab) = None"
  using C7_closeResult [of "''result-2''" three_tabs]
    C7_closeResult [of "''result-1''" three_tabs]
    C7_closeResult [of "''result-1''" one_tab]
  by (simp add: three_tabs_def three_uploads_def one_tab_def active_present_def app_defs)

section \<open>The store's invariant\<close>

text \<open>
  After every sequence of events from the initial state, the active id is null or the id
  of a result in the collection. When the uploads of the sequence read pairwise different
  values of \<open>Date.now()\<close>, the ids of the results are pairwise different and at most
  one result carries the active id.
\<close>

theorem store_invariant:
  "active_present (run evs initial_state) \<and>
   (distinct (upload_stamps evs) \<longrightarrow>
      distinct (map rid (results (run evs initial_state))) \<and>
      length (active_results (run evs initial_state)) \<le> 1)"
proof
  show "active_present (run evs initial_state)" by (rule active_present_run)
next
  show "distinct (upload_stamps evs) \<longrightarrow>
      distinct (map rid (results (run evs initial_state))) \<and>
      length (active_results (run evs initial_state)) \<le> 1"
  proof
    assume "distinct (upload_stamps evs)"
    with ids_run [of evs] have d: "distinct (map rid (results (run evs initial_state)))"
      by simp
    then have "length (active_results (run evs initial_state)) \<le> 1"
      unfolding active_results_def by (rule at_most_one_with_key)
    with d show "distinct (map rid (results (run evs initial_state))) \<and>
      length (active_results (run evs initial_state)) \<le> 1" ..
  qed
qed

lemma store_invariant_example:
  "distinct (upload_stamps three_uploads) \<and>
   active_present (run three_uploads initial_state) \<and>
   map rid (active_results (run three_uploads initial_state)) = [''result-2'']"
  by (simp add: three_uploads_def active_results_def active_present_def app_defs)

text \<open>
  Claim C8. The store is to keep, from the empty initial state on, at most one result
  active and the active id null or the id of a result in the collection. The second half
  holds in every state (\<open>store_invariant\<close>). The first half does not: the id of a new
  result is \<open>result-\<close> followed by the reading of \<open>Date.now()\<close>, so two uploads
  that read the same millisecond get the same id, and after them two results carry the
  active id. The tab bar marks both tabs as active, closing one closes both, and an edit
  of the data changes both.
\<close>

theorem C8_same_millisecond_two_active:
  "upload_stamps same_stamp = [5, 5] \<and>
   map rid (results (run same_stamp initial_state)) = [''result-5'', ''result-5''] \<and>
   activeResultId (run same_stamp initial_state) = Some ''result-5'' \<and>
   map img (active_results (run same_stamp initial_state)) = [''img-a'', ''img-b''] \<and>
   length (active_results (run same_stamp initial_state)) = 2 \<and>
   results (run (same_stamp @ [CloseTab ''result-5'']) initial_state) = []"
  by (simp add: same_stamp_def active_results_def app_defs)

section \<open>Names of results\<close>

text \<open>
  The name of a new result is \<open>Result N\<close> with \<open>N\<close> one more than the length of
  \<open>results\<close> in the render whose handler runs. For an image chosen through the file
  input and read before the collection changes that is one more than the number of
  results in the collection; for a dropped image it is 1.
\<close>

theorem name_of_new_result:
  "name (last (results (handleImageSelect now base64 rendered s)))
     = ''Result '' @ string_of_nat (length rendered + 1) \<and>
   name (last (results (apply_event (Upload now base64) s)))
     = ''Result '' @ string_of_nat (length (results s) + 1) \<and>
   name (last (results (apply_event (UploadLate now base64 rendered) s)))
     = ''Result '' @ string_of_nat (length rendered + 1) \<and>
   name (last (results (apply_event (Drop now base64) s))) = ''Result 1''"
  by (simp add: handleImageSelect_def Let_def string_of_nat.simps digit_char_def)

text \<open>
  After two images chosen through the file input, the closing of the first tab and a
  third image chosen through the file input, the two results in the collection have
  different ids and the same name \<open>Result 2\<close>; an export started from either of them
  calls \<open>exportToGoogleSheet\<close> with the sheet name \<open>Result 2\<close>.
\<close>

theorem equal_names_after_close:
  "map rid (results two_named_alike) = [''result-2'', ''result-3''] \<and>
   map name (results two_named_alike) = [''Result 2'', ''Result 2''] \<and>
   activeResultId two_named_alike = Some ''result-3'' \<and>
   export_enabled two_named_alike \<and>
   snd (handleExportToSheets_begin False True two_named_alike)
     = Some (ExportCall ''sheet-id'' ''token'' scenario_items ''Result 2'' ''result-3'') \<and>
   export_enabled (apply_event (SelectTab ''result-2'') two_named_alike) \<and>
   snd (handleExportToSheets_begin False True
          (apply_event (SelectTab ''result-2'') two_named_alike))
     = Some (ExportCall ''sheet-id'' ''token'' scenario_items ''Result 2'' ''result-2'')"
proof -
  have state: "two_named_alike =
     \<lparr>results =
        [\<lparr>rid = ''result-2'', name = ''Result 2'', img = ''img-b'', data = scenario_items,
          status = SUCCESS, errorMessage = None\<rparr>,
         \<lparr>rid = ''result-3'', name = ''Result 2'', img = ''img-c'', data = scenario_items,
          status = SUCCESS, errorMessage = None\<rparr>],
      activeResultId = Some ''result-3'', showSettings = False,
      sheetConfig = \<lparr>spreadsheetId = ''sheet-id'', clientId = []\<rparr>,
      googleAccessToken = Some ''token'',
      effects = [Alert ''Connected to Google successfully! You can now export.'']\<rparr>"
    by (simp add: two_named_alike_def app_defs)
  have data: "data_fields scenario_items \<noteq> []"
    by (simp add: scenario_items_def)
  show ?thesis
    unfolding state using data
    by (simp add: handleExportToSheets_begin_def export_enabled_def connected_def hasData_def
        activeResult_def setActiveResultId_def updateResult_def)
qed

text \<open>
  Claim C10. A new result is to be named \<open>Result N\<close> with \<open>N\<close> the number of
  results in the collection plus one, so that after some creations and closings two
  results in the collection have equal names and export to the same sheet. Two results
  with equal names do arise (\<open>equal_names_after_close\<close>), and an image chosen through
  the file input is named by the number of results (\<open>name_of_new_result\<close>). A dropped
  image is not: \<open>handleDrop\<close> in the uploader is memoised with no dependencies, so it
  keeps calling the \<open>handleImageSelect\<close> of the first render, whose \<open>results\<close> is
  the empty list. After one image has been dropped and extracted the collection holds one
  result, no result is being analysed, and a second dropped image is named
  \<open>Result 1\<close> where the number of results plus one is 2. The same two images chosen
  through the file input are named \<open>Result 1\<close> and \<open>Result 2\<close>.
\<close>

theorem C10_dropped_image_named_Result_1:
  "map name (results (run dropped_once initial_state)) = [''Result 1''] \<and>
   map status (results (run dropped_once initial_state)) = [SUCCESS] \<and>
   map rid (results (run dropped_twice initial_state)) = [''result-1'', ''result-2''] \<and>
   map name (results (run dropped_twice initial_state)) = [''Result 1'', ''Result 1''] \<and>
   string_of_nat (length (results (run dropped_once initial_state)) + 1) = ''2'' \<and>
   map name (results (run chosen_twice initial_state)) = [''Result 1'', ''Result 2'']"
  by (simp add: dropped_once_def dropped_twice_def chosen_twice_def app_defs)

lemma str_includes_contains: "str_includes s sub = contains s sub"
proof (induction s)
  case Nil
  show ?case by (auto simp: contains_def)
next
  case (Cons c cs)
  have "contains (c # cs) sub = (take (length sub) (c # cs) = sub \<or> contains cs sub)"
  proof
    assume "contains (c # cs) sub"
    then obtain p q where pq: "c # cs = p @ sub @ q" by (auto simp: contains_def)
    show "take (length sub) (c # cs) = sub \<or> contains cs sub"
    proof (cases p)
      case Nil
      with pq show ?thesis by simp
    next
      case (Cons a p')
      with pq have "cs = p' @ sub @ q" by simp
      then show ?thesis by (auto simp: contains_def)
    qed
  next
    assume "take (length sub) (c # cs) = sub \<or> contains cs sub"
    then show "contains (c # cs) sub"
    proof
      assume "take (length sub) (c # cs) = sub"
      then have "c # cs = [] @ sub @ drop (length sub) (c # cs)"
        by (metis append_Nil append_take_drop_id)
      then show ?thesis unfolding contains_def by blast
    next
      assume "contains cs sub"
      then obtain p q where "cs = p @ sub @ q" by (auto simp: contains_def)
      then have "c # cs = (c # p) @ sub @ q" by simp
      then show ?thesis unfolding contains_def by blast
    qed
  qed
  with Cons show ?case by simp
qed

lemma settled_failed_results:
  "results (handleExportToSheets_settled c (Inl message) s)
     = map (\<lambda>r. if rid r = call_resultId c then r\<lparr>status := SUCCESS\<rparr> else r) (results s)"
  by (simp add: handleExportToSheets_settled_def Let_def updateResult_def spread_status_only)

lemma begin_call:
  assumes "handleExportToSheets_begin confirmLogin google_loaded s = (s', Some c)"
  shows "\<exists>ar. activeResult s = Some ar \<and> call_resultId c = rid ar \<and>
           call_sheetName c = name ar \<and> call_data c = data ar \<and>
           s' = updateResult (rid ar) (no_updates\<lparr>p_status := Some EXPORTING\<rparr>) s"
  using assms
  by (auto simp: handleExportToSheets_begin_def Let_def split: if_splits option.splits)

lemma settled_data:
  "map data (results (handleExportToSheets_settled c out s)) = map data (results s)"
  by (simp add: handleExportToSheets_settled_def Let_def updateResult_def spread_status_only
      split: sum.splits)

lemma begin_data:
  "map data (results (fst (handleExportToSheets_begin cf gl s))) = map data (results s)"
  by (simp add: handleExportToSheets_begin_def handleGoogleLogin_def Let_def updateResult_def
      spread_status_only split: option.splits)

lemma handleExportToSheets_data:
  "map data (results (handleExportToSheets num rem cf gl s)) = map data (results s)"
proof (cases "handleExportToSheets_begin cf gl s")
  case (Pair s' call)
  then have s': "map data (results s') = map data (results s)"
    using begin_data [of cf gl s] by simp
  show ?thesis
  proof (cases call)
    case None
    with Pair s' show ?thesis by (simp add: handleExportToSheets_def)
  next
    case (Some c)
    with Pair s' show ?thesis
      by (simp add: handleExportToSheets_def settled_data split: prod.splits)
  qed
qed

section \<open>Lemmas on the remote protocol\<close>










lemmas export_defs =
  exportToGoogleSheet_def export_headers_def export_union_def export_append_def
  formatSheetName_def is_word_char_def finalHeaders_def globalHeaders_def rowsToAppend_def
  globalValues_def pad_row_eq padded_to_def masterHeaders_def headersChanged_def
  computeHeaderUnion_def formattedRows_def js_get_def remote_all_ok_def remote_down_def
  remote_get_rejected_def remote_get_garbled_def remote_refusing_def remote_unauthorized_def
  empty_body_def

lemma ready_to_export_state:
  "ready_to_export =
     \<lparr>results =
        [\<lparr>rid = ''result-1'', name = ''Result 1'', img = ''img-a'', data = scenario_items,
          status = SUCCESS, errorMessage = None\<rparr>],
      activeResultId = Some ''result-1'', showSettings = False,
      sheetConfig = \<lparr>spreadsheetId = ''sheet-id'', clientId = []\<rparr>,
      googleAccessToken = Some ''token'',
      effects = [Alert ''Connected to Google successfully! You can now export.'']\<rparr>"
  by (simp add: ready_to_export_def ready_events_def app_defs)

lemma error_with_data_state:
  "error_with_data =
     \<lparr>results =
        [\<lparr>rid = ''result-5'', name = ''Result 1'', img = ''img-a'', data = scenario_items,
          status = ERROR, errorMessage = Some ''The model is overloaded''\<rparr>,
         \<lparr>rid = ''result-5'', name = ''Result 1'', img = ''img-b'', data = scenario_items,
          status = ERROR, errorMessage = Some ''The model is overloaded''\<rparr>],
      activeResultId = Some ''result-5'', showSettings = False,
      sheetConfig = \<lparr>spreadsheetId = ''sheet-id'', clientId = []\<rparr>,
      googleAccessToken = Some ''token'',
      effects = [ConsoleError ''The model is overloaded'',
                 Alert ''Connected to Google successfully! You can now export.'']\<rparr>"
  by (simp add: error_with_data_def error_events_def same_stamp_def app_defs)

lemma scenario_items_has_data: "data_fields scenario_items \<noteq> []"
  by (simp add: scenario_items_def)

section \<open>Lemmas on where an export can start\<close>

lemma settled_inv_results:
  "settled_inv s pending \<Longrightarrow> results s' = results s \<Longrightarrow> settled_inv s' pending"
  by (simp add: settled_inv_def)

lemma settled_inv_update:
  assumes inv: "settled_inv s pending"
    and ok: "\<And>r. r \<in> set (results s) \<Longrightarrow> rid r = i \<Longrightarrow>
               rid (f r) = rid r \<and>
               (rid r \<in> set pending' \<longrightarrow> \<not> has_data (data (f r))) \<and>
               (has_data (data (f r)) \<longrightarrow> status (f r) = SUCCESS \<or> status (f r) = EXPORTING)"
    and sub: "set pending' \<subseteq> set pending" and dp: "distinct pending'"
    and res: "results s' = map (\<lambda>r. if rid r = i then f r else r) (results s)"
  shows "settled_inv s' pending'"
proof -
  have ids: "map rid (map (\<lambda>r. if rid r = i then f r else r) (results s)) = map rid (results s)"
  proof (rule nth_equalityI)
    show "length (map rid (map (\<lambda>r. if rid r = i then f r else r) (results s)))
            = length (map rid (results s))" by simp
  next
    fix k assume "k < length (map rid (map (\<lambda>r. if rid r = i then f r else r) (results s)))"
    then have k: "k < length (results s)" by simp
    then have "results s ! k \<in> set (results s)" by simp
    with ok k show "map rid (map (\<lambda>r. if rid r = i then f r else r) (results s)) ! k
                      = map rid (results s) ! k"
      by simp
  qed
  from inv sub ok show ?thesis
    unfolding settled_inv_def res using ids dp by (auto simp del: map_map)
qed

lemma settled_inv_filter:
  assumes "settled_inv s pending" and "results s' = filter P (results s)"
  shows "settled_inv s' pending"
  using assms by (auto simp: settled_inv_def distinct_map_filter)

lemma find_active_unique:
  assumes "distinct (map rid rs)" and "find (\<lambda>r. a = Some (rid r)) rs = Some x"
    and "r \<in> set rs" and "rid r = rid x"
  shows "r = x"
proof -
  from assms(2) have "x \<in> set rs" by (auto simp: find_Some_iff)
  with assms(1,3,4) show ?thesis by (meson distinct_map inj_onD)
qed

lemma find_active_in:
  "find (\<lambda>r. a = Some (rid r)) rs = Some x \<Longrightarrow> x \<in> set rs \<and> a = Some (rid x)"
  by (auto simp: find_Some_iff)

lemma settled_inv_upload:
  assumes inv: "settled_inv s pending"
    and new: "''result-'' @ string_of_nat now \<notin> set (map rid (results s))"
    and newp: "''result-'' @ string_of_nat now \<notin> set pending"
  shows "settled_inv (handleImageSelect now base64 rendered s)
           ((''result-'' @ string_of_nat now) # pending)"
proof -
  let ?i = "''result-'' @ string_of_nat now"
  have other: "rid r \<noteq> ?i" if "r \<in> set (results s)" for r
    using that new by (metis imageI set_map)
  have res: "results (handleImageSelect now base64 rendered s)
      = results s @ [\<lparr>rid = ?i, name = ''Result '' @ string_of_nat (length rendered + 1),
                       img = base64, data = \<lparr>data_fields = [], tables = []\<rparr>,
                       status = ANALYZING, errorMessage = None\<rparr>]"
    by (simp add: handleImageSelect_def Let_def)
  from inv new newp other show ?thesis
    unfolding settled_inv_def res by (auto simp: has_data_def)
qed

lemma settled_inv_extracted:
  assumes inv: "settled_inv s pending" and i: "i \<in> set pending"
  shows "settled_inv (extraction_settled i outcome s) (remove1 i pending)"
proof (cases outcome)
  case (Inr d)
  from inv have dp: "distinct pending" by (simp add: settled_inv_def)
  show ?thesis
  proof (rule settled_inv_update [OF inv _ _ _ ])
    show "results (extraction_settled i outcome s)
        = map (\<lambda>r. if rid r = i
                     then spread r (no_updates\<lparr>p_data := Some d, p_status := Some SUCCESS\<rparr>)
                     else r) (results s)"
      by (simp add: Inr extraction_settled_def updateResult_def)
  next
    fix r assume "r \<in> set (results s)" and "rid r = i"
    with dp show "rid (spread r (no_updates\<lparr>p_data := Some d, p_status := Some SUCCESS\<rparr>)) = rid r \<and>
       (rid r \<in> set (remove1 i pending) \<longrightarrow>
          \<not> has_data (data (spread r (no_updates\<lparr>p_data := Some d, p_status := Some SUCCESS\<rparr>)))) \<and>
       (has_data (data (spread r (no_updates\<lparr>p_data := Some d, p_status := Some SUCCESS\<rparr>))) \<longrightarrow>
          status (spread r (no_updates\<lparr>p_data := Some d, p_status := Some SUCCESS\<rparr>)) = SUCCESS \<or>
          status (spread r (no_updates\<lparr>p_data := Some d, p_status := Some SUCCESS\<rparr>)) = EXPORTING)"
      by (simp add: spread_def no_updates_def)
  next
    show "set (remove1 i pending) \<subseteq> set pending" by (rule set_remove1_subset)
  next
    from dp show "distinct (remove1 i pending)" by simp
  qed
next
  case (Inl m)
  from inv have dp: "distinct pending" by (simp add: settled_inv_def)
  let ?u = "no_updates\<lparr>p_status := Some ERROR,
              p_errorMessage := Some (Some (or_default (Some m) ''Failed to extract data.''))\<rparr>
            :: 'a Partial"
  show ?thesis
  proof (rule settled_inv_update [OF inv _ _ _ ])
    show "results (extraction_settled i outcome s)
        = map (\<lambda>r. if rid r = i then spread r ?u else r) (results s)"
      by (simp add: Inl extraction_settled_def updateResult_def)
  next
    fix r assume r: "r \<in> set (results s)" and ri: "rid r = i"
    with inv i have "\<not> has_data (data r)" by (auto simp: settled_inv_def)
    then show "rid (spread r ?u) = rid r \<and>
       (rid r \<in> set (remove1 i pending) \<longrightarrow> \<not> has_data (data (spread r ?u))) \<and>
       (has_data (data (spread r ?u)) \<longrightarrow>
          status (spread r ?u) = SUCCESS \<or> status (spread r ?u) = EXPORTING)"
      by (simp add: spread_def no_updates_def)
  next
    show "set (remove1 i pending) \<subseteq> set pending" by (rule set_remove1_subset)
  next
    from dp show "distinct (remove1 i pending)" by simp
  qed
qed

lemma settled_inv_status:
  assumes inv: "settled_inv s pending" and v: "v = SUCCESS \<or> v = EXPORTING"
    and res: "results s' = results (updateResult i (no_updates\<lparr>p_status := Some v\<rparr>) s)"
  shows "settled_inv s' pending"
proof (rule settled_inv_update [OF inv _ _ _ ])
  show "results s' = map (\<lambda>r. if rid r = i then r\<lparr>status := v\<rparr> else r) (results s)"
    by (simp add: res updateResult_def spread_status_only)
next
  fix r assume "r \<in> set (results s)" and "rid r = i"
  with inv v show "rid (r\<lparr>status := v\<rparr>) = rid r \<and>
       (rid r \<in> set pending \<longrightarrow> \<not> has_data (data (r\<lparr>status := v\<rparr>))) \<and>
       (has_data (data (r\<lparr>status := v\<rparr>)) \<longrightarrow>
          status (r\<lparr>status := v\<rparr>) = SUCCESS \<or> status (r\<lparr>status := v\<rparr>) = EXPORTING)"
    by (auto simp: settled_inv_def)
next
  show "set pending \<subseteq> set pending" by simp
next
  from inv show "distinct pending" by (simp add: settled_inv_def)
qed

lemma hasData_has_data:
  "hasData s = (\<exists>x. activeResult s = Some x \<and> has_data (data x))"
  by (auto simp: hasData_def has_data_def split: option.splits)

lemma settled_inv_editData:
  assumes inv: "settled_inv s pending" and h: "hasData s"
  shows "settled_inv (editData newData s) pending"
proof -
  from h obtain x where x: "activeResult s = Some x" and hx: "has_data (data x)"
    by (auto simp: hasData_has_data)
  from x have xin: "x \<in> set (results s)" and a: "activeResultId s = Some (rid x)"
    by (auto simp: activeResult_def dest: find_active_in)
  from inv have d: "distinct (map rid (results s))" by (simp add: settled_inv_def)
  from inv xin hx have xp: "rid x \<notin> set pending"
    and xs: "status x = SUCCESS \<or> status x = EXPORTING"
    by (auto simp: settled_inv_def)
  show ?thesis
  proof (cases "rid x = []")
    case True
    with a show ?thesis by (simp add: editData_def inv)
  next
    case False
    show ?thesis
    proof (rule settled_inv_update [OF inv _ _ _ ])
      show "results (editData newData s)
          = map (\<lambda>r. if rid r = rid x then spread r (no_updates\<lparr>p_data := Some newData\<rparr>) else r)
              (results s)"
        using a False by (simp add: editData_def updateResult_def)
    next
      fix r assume r: "r \<in> set (results s)" and ri: "rid r = rid x"
      from d x r ri have "r = x"
        unfolding activeResult_def by (rule find_active_unique)
      with xp xs show "rid (spread r (no_updates\<lparr>p_data := Some newData\<rparr>)) = rid r \<and>
         (rid r \<in> set pending \<longrightarrow>
            \<not> has_data (data (spread r (no_updates\<lparr>p_data := Some newData\<rparr>)))) \<and>
         (has_data (data (spread r (no_updates\<lparr>p_data := Some newData\<rparr>))) \<longrightarrow>
            status (spread r (no_updates\<lparr>p_data := Some newData\<rparr>)) = SUCCESS \<or>
            status (spread r (no_updates\<lparr>p_data := Some newData\<rparr>)) = EXPORTING)"
        by (simp add: spread_def no_updates_def)
    next
      show "set pending \<subseteq> set pending" by simp
    next
      from inv show "distinct pending" by (simp add: settled_inv_def)
    qed
  qed
qed

lemma settled_inv_tryAgain:
  assumes inv: "settled_inv s pending"
  shows "settled_inv (tryAgain s) pending"
proof (cases "activeResult s")
  case None
  with inv show ?thesis by (simp add: tryAgain_def)
next
  case (Some x)
  from Some have xin: "x \<in> set (results s)"
    by (auto simp: activeResult_def dest: find_active_in)
  from inv have d: "distinct (map rid (results s))" by (simp add: settled_inv_def)
  show ?thesis
  proof (cases "status x = ERROR")
    case False
    with Some inv show ?thesis by (simp add: tryAgain_def)
  next
    case True
    with inv xin have nd: "\<not> has_data (data x)" by (auto simp: settled_inv_def)
    show ?thesis
    proof (rule settled_inv_update [OF inv _ _ _ ])
      show "results (tryAgain s)
          = map (\<lambda>r. if rid r = rid x then r\<lparr>status := IDLE\<rparr> else r) (results s)"
        using Some True by (simp add: tryAgain_def updateResult_def spread_status_only)
    next
      fix r assume r: "r \<in> set (results s)" and ri: "rid r = rid x"
      from d Some r ri have "r = x"
        unfolding activeResult_def by (rule find_active_unique)
      with nd show "rid (r\<lparr>status := IDLE\<rparr>) = rid r \<and>
         (rid r \<in> set pending \<longrightarrow> \<not> has_data (data (r\<lparr>status := IDLE\<rparr>))) \<and>
         (has_data (data (r\<lparr>status := IDLE\<rparr>)) \<longrightarrow>
            status (r\<lparr>status := IDLE\<rparr>) = SUCCESS \<or> status (r\<lparr>status := IDLE\<rparr>) = EXPORTING)"
        by simp
    next
      show "set pending \<subseteq> set pending" by simp
    next
      from inv show "distinct pending" by (simp add: settled_inv_def)
    qed
  qed
qed

lemma settled_inv_begin:
  assumes inv: "settled_inv s pending"
  shows "settled_inv (fst (handleExportToSheets_begin c g s)) pending"
proof (cases "snd (handleExportToSheets_begin c g s)")
  case None
  then have "results (fst (handleExportToSheets_begin c g s)) = results s"
    by (auto simp: handleExportToSheets_begin_def handleGoogleLogin_def Let_def
        split: if_splits option.splits)
  with inv show ?thesis by (rule settled_inv_results)
next
  case (Some call)
  then obtain s' where eq: "handleExportToSheets_begin c g s = (s', Some call)"
    by (cases "handleExportToSheets_begin c g s") simp
  from begin_call [OF eq] obtain ar where "activeResult s = Some ar"
    and s': "s' = updateResult (rid ar) (no_updates\<lparr>p_status := Some EXPORTING\<rparr>) s"
    by blast
  have "settled_inv s' pending"
    by (rule settled_inv_status [OF inv, of EXPORTING _ "rid ar"]) (simp_all add: s')
  then show ?thesis by (simp add: eq)
qed

lemma settled_inv_settled:
  assumes inv: "settled_inv s pending"
  shows "settled_inv (handleExportToSheets_settled c outcome s) pending"
proof -
  have "results (handleExportToSheets_settled c outcome s)
          = results (updateResult (call_resultId c) (no_updates\<lparr>p_status := Some SUCCESS\<rparr>) s)"
    by (simp add: handleExportToSheets_settled_def Let_def updateResult_def split: sum.splits)
  then show ?thesis
    by (intro settled_inv_status [OF inv, of SUCCESS]) simp_all
qed

lemma settled_inv_apply_event:
  assumes inv: "settled_inv s pending"
    and up: "\<And>now. upload_stamps [e] = [now] \<Longrightarrow>
               ''result-'' @ string_of_nat now \<notin> set (map rid (results s)) \<and>
               ''result-'' @ string_of_nat now \<notin> set pending"
    and ex: "\<And>i out. e = Extracted i out \<Longrightarrow> i \<in> set pending"
  shows "settled_inv (apply_event e s) (pending_after e pending)"
proof (cases e)
  case (Upload now b)
  then have "upload_stamps [e] = [now]" by simp
  from up [OF this] have
    "settled_inv (handleImageSelect now b (results s) s)
       ((''result-'' @ string_of_nat now) # pending)"
    by (intro settled_inv_upload [OF inv]) simp_all
  with Upload show ?thesis by simp
next
  case (UploadLate now b rendered)
  then have "upload_stamps [e] = [now]" by simp
  from up [OF this] have
    "settled_inv (handleImageSelect now b rendered s)
       ((''result-'' @ string_of_nat now) # pending)"
    by (intro settled_inv_upload [OF inv]) simp_all
  with UploadLate show ?thesis by simp
next
  case (Drop now b)
  then have "upload_stamps [e] = [now]" by simp
  from up [OF this] have
    "settled_inv (handleImageSelect now b [] s)
       ((''result-'' @ string_of_nat now) # pending)"
    by (intro settled_inv_upload [OF inv]) simp_all
  with Drop show ?thesis by simp
next
  case (Extracted i out)
  from ex [OF Extracted] have "settled_inv (extraction_settled i out s) (remove1 i pending)"
    by (rule settled_inv_extracted [OF inv])
  with Extracted show ?thesis by simp
next
  case (SelectTab t)
  have "settled_inv (setActiveResultId t s) pending"
    by (rule settled_inv_results [OF inv]) (simp add: setActiveResultId_def)
  with SelectTab inv show ?thesis by simp
next
  case (CloseTab t)
  have "results (handleCloseTab t s) = filter (\<lambda>r. rid r \<noteq> t) (results s)"
    by (simp add: handleCloseTab_def Let_def)
  with CloseTab inv show ?thesis by (auto intro: settled_inv_filter)
next
  case (RenameTab t n)
  have "settled_inv (handleRenameTab t n s) pending"
  proof (rule settled_inv_update [OF inv _ _ _ ])
    show "results (handleRenameTab t n s)
        = map (\<lambda>r. if rid r = t then r\<lparr>name := n\<rparr> else r) (results s)"
      by (simp add: handleRenameTab_def updateResult_def spread_def no_updates_def)
  next
    fix r assume "r \<in> set (results s)" and "rid r = t"
    with inv show "rid (r\<lparr>name := n\<rparr>) = rid r \<and>
         (rid r \<in> set pending \<longrightarrow> \<not> has_data (data (r\<lparr>name := n\<rparr>))) \<and>
         (has_data (data (r\<lparr>name := n\<rparr>)) \<longrightarrow>
            status (r\<lparr>name := n\<rparr>) = SUCCESS \<or> status (r\<lparr>name := n\<rparr>) = EXPORTING)"
      by (auto simp: settled_inv_def)
  next
    show "set pending \<subseteq> set pending" by simp
  next
    from inv show "distinct pending" by (simp add: settled_inv_def)
  qed
  with RenameTab show ?thesis by simp
next
  case (EditData d)
  with inv show ?thesis by (simp add: settled_inv_editData)
next
  case TryAgain
  with inv show ?thesis by (simp add: settled_inv_tryAgain)
next
  case (ExportClick c g)
  with inv show ?thesis by (simp add: settled_inv_begin)
next
  case (ExportSettled c out)
  with inv show ?thesis by (simp add: settled_inv_settled)
next
  case OpenSettings
  then show ?thesis using settled_inv_results [OF inv, of "s\<lparr>showSettings := True\<rparr>"] by simp
next
  case CloseSettings
  then show ?thesis using settled_inv_results [OF inv, of "s\<lparr>showSettings := False\<rparr>"] by simp
next
  case (SetSpreadsheetId v)
  then show ?thesis
    using settled_inv_results [OF inv, of "setSpreadsheetId v s"] inv
    by (simp add: setSpreadsheetId_def)
next
  case (SetClientId v)
  then show ?thesis
    using settled_inv_results [OF inv, of "setClientId v s"] inv
    by (simp add: setClientId_def)
next
  case (ConnectGoogle g)
  then show ?thesis
    using settled_inv_results [OF inv, of "handleGoogleLogin g s"] inv
    by (simp add: handleGoogleLogin_def)
next
  case (TokenReceived t)
  then show ?thesis
    using settled_inv_results [OF inv, of "tokenReceived t s"] inv
    by (simp add: tokenReceived_def)
qed

lemma set_pending_after:
  "set (pending_after e pending)
     \<subseteq> set pending \<union> (\<lambda>t. ''result-'' @ string_of_nat t) ` set (upload_stamps [e])"
proof (cases e)
  case (Extracted i out)
  then show ?thesis using set_remove1_subset [of i pending] by auto
qed auto

lemma settles_once_Cons:
  "settles_once (e # evs) pending \<Longrightarrow> settles_once evs (pending_after e pending)"
  by (cases e) simp_all

lemma run_settled_inv:
  assumes "settled_inv s pending"
    and "set (map rid (results s)) \<union> set pending
           \<subseteq> (\<lambda>t. ''result-'' @ string_of_nat t) ` U"
    and "distinct (upload_stamps evs)" and "set (upload_stamps evs) \<inter> U = {}"
    and "settles_once evs pending"
  shows "\<exists>pending'. settled_inv (run evs s) pending'"
  using assms
proof (induction evs arbitrary: s pending U)
  case Nil
  then show ?case by (auto simp: run_def)
next
  case (Cons e evs)
  let ?mk = "\<lambda>t. ''result-'' @ string_of_nat t"
  let ?U = "U \<union> set (upload_stamps [e])"
  have st: "upload_stamps (e # evs) = upload_stamps [e] @ upload_stamps evs"
    using upload_stamps_append [of "[e]" evs] by simp
  have inv': "settled_inv (apply_event e s) (pending_after e pending)"
  proof (rule settled_inv_apply_event [OF Cons.prems(1)])
    fix now assume e: "upload_stamps [e] = [now]"
    with Cons.prems(4) have "now \<notin> U" by (auto simp: st)
    with Cons.prems(2) show "?mk now \<notin> set (map rid (results s)) \<and> ?mk now \<notin> set pending"
      by (auto dest: string_of_nat_inj)
  next
    fix i out assume "e = Extracted i out"
    with Cons.prems(5) show "i \<in> set pending" by simp
  qed
  have ids': "set (map rid (results (apply_event e s))) \<union> set (pending_after e pending)
                \<subseteq> ?mk ` ?U"
  proof -
    have "set (map rid (results (apply_event e s)))
            \<subseteq> set (map rid (results s)) \<union> ?mk ` set (upload_stamps [e])"
      unfolding ids_apply_event by (cases e) auto
    with set_pending_after [of e pending] Cons.prems(2) show ?thesis by blast
  qed
  from Cons.prems(3) have d': "distinct (upload_stamps evs)" by (simp add: st)
  from Cons.prems(3,4) have dj': "set (upload_stamps evs) \<inter> ?U = {}"
    by (auto simp: st)
  from Cons.prems(5) have so': "settles_once evs (pending_after e pending)"
    by (rule settles_once_Cons)
  from Cons.IH [OF inv' ids' d' dj' so']
  show ?case by (simp add: run_def)
qed

text \<open>
  In a run whose uploads read pairwise different values of \<open>Date.now()\<close> and in
  which every extraction settles once, the Export Sheet button is enabled only while the
  active result is in status SUCCESS.
\<close>

theorem export_starts_from_success:
  assumes "distinct (upload_stamps evs)" and "settles_once evs []"
    and "export_enabled (run evs initial_state)"
  shows "\<exists>r. activeResult (run evs initial_state) = Some r \<and> status r = SUCCESS"
proof -
  have "settled_inv (initial_state :: 'a AppState) []"
    by (simp add: settled_inv_def initial_state_def)
  moreover have "set (map rid (results (initial_state :: 'a AppState))) \<union> set []
                   \<subseteq> (\<lambda>t. ''result-'' @ string_of_nat t) ` {}"
    by (simp add: initial_state_def)
  ultimately obtain pending where inv: "settled_inv (run evs initial_state) pending"
    using run_settled_inv [of initial_state "[]" "{}" evs] assms(1,2) by auto
  from assms(3) obtain x where x: "activeResult (run evs initial_state) = Some x"
    and hx: "has_data (data x)" and ne: "status x \<noteq> EXPORTING"
    by (auto simp: export_enabled_def hasData_has_data)
  from x have "x \<in> set (results (run evs initial_state))"
    by (auto simp: activeResult_def dest: find_active_in)
  with inv hx ne have "status x = SUCCESS" by (auto simp: settled_inv_def)
  with x show ?thesis by blast
qed

lemma export_starts_from_success_example:
  "distinct (upload_stamps ready_events) \<and> settles_once ready_events [] \<and>
   export_enabled (run ready_events initial_state) \<and>
   map status (results (run ready_events initial_state)) = [SUCCESS]"
proof -
  have h1: "distinct (upload_stamps ready_events)"
    by (simp add: ready_events_def)
  have h2: "settles_once ready_events []"
    by (simp add: ready_events_def string_of_nat.simps digit_char_def)
  have h3: "export_enabled (run ready_events initial_state)"
    unfolding ready_to_export_def [symmetric] ready_to_export_state
    using scenario_items_has_data
    by (simp add: export_enabled_def connected_def hasData_def activeResult_def)
  from export_starts_from_success [OF h1 h2 h3] h1 h2 h3 show ?thesis
    unfolding ready_to_export_def [symmetric] ready_to_export_state by simp
qed

section \<open>A failed export\<close>

text \<open>
  The handler of a failed export writes the constant SUCCESS. When an export started from
  the active result fails, the status afterwards of every result with that result's id is
  SUCCESS, whatever it was before the export, and every other field, the data among
  them, is as it was before; the results with another id are untouched. The same holds
  when the failure is handled in a later state of the store.
\<close>

theorem failed_export_sets_success:
  assumes "handleExportToSheets_begin confirmLogin google_loaded s = (s', Some c)"
    and "fst (exportToGoogleSheet num rem (call_spreadsheetId c) (call_accessToken c)
               (call_data c) (call_sheetName c)) = Inl message"
  shows "(\<exists>ar. activeResult s = Some ar \<and> call_resultId c = rid ar) \<and>
         results (handleExportToSheets num rem confirmLogin google_loaded s)
           = map (\<lambda>r. if rid r = call_resultId c then r\<lparr>status := SUCCESS\<rparr> else r) (results s) \<and>
         results (handleExportToSheets_settled c (Inl message) later)
           = map (\<lambda>r. if rid r = call_resultId c then r\<lparr>status := SUCCESS\<rparr> else r) (results later)"
proof -
  from begin_call [OF assms(1)] obtain ar where ar: "activeResult s = Some ar"
    and cid: "call_resultId c = rid ar"
    and s': "s' = updateResult (rid ar) (no_updates\<lparr>p_status := Some EXPORTING\<rparr>) s"
    by blast
  obtain sent where ex: "exportToGoogleSheet num rem (call_spreadsheetId c) (call_accessToken c)
               (call_data c) (call_sheetName c) = (Inl message, sent)"
    using assms(2) by (cases "exportToGoogleSheet num rem (call_spreadsheetId c)
               (call_accessToken c) (call_data c) (call_sheetName c)") simp
  have "results (handleExportToSheets num rem confirmLogin google_loaded s)
          = results (handleExportToSheets_settled c (Inl message)
                       (s'\<lparr>effects := effects s' @ map Fetch sent\<rparr>))"
    by (simp add: handleExportToSheets_def assms(1) ex)
  also have "\<dots> = map (\<lambda>r. if rid r = call_resultId c then r\<lparr>status := SUCCESS\<rparr> else r) (results s')"
    by (simp add: settled_failed_results)
  also have "\<dots> = map (\<lambda>r. if rid r = call_resultId c then r\<lparr>status := SUCCESS\<rparr> else r) (results s)"
    by (simp add: s' cid updateResult_def spread_status_only)
  finally show ?thesis using ar cid by (simp add: settled_failed_results)
qed

text \<open>
  In a run whose uploads read pairwise different values of \<open>Date.now()\<close> and in
  which every extraction settles once, a failed export leaves the collection as it was
  before the export: the result it was started from was in status SUCCESS
  (\<open>export_starts_from_success\<close>), no other result has its id, and its status is
  SUCCESS again. There the status reverts to what it was before the export.
\<close>

theorem failed_export_reverts:
  assumes stamps: "distinct (upload_stamps evs)" and once: "settles_once evs []"
    and enabled: "export_enabled (run evs initial_state)"
    and started: "handleExportToSheets_begin confirmLogin google_loaded (run evs initial_state)
                  = (s', Some c)"
    and fails: "fst (exportToGoogleSheet num rem (call_spreadsheetId c) (call_accessToken c)
                      (call_data c) (call_sheetName c)) = Inl message"
  shows "results (handleExportToSheets num rem confirmLogin google_loaded (run evs initial_state))
           = results (run evs initial_state)"
proof -
  let ?s = "run evs initial_state"
  from export_starts_from_success [OF stamps once enabled]
  obtain r where r: "activeResult ?s = Some r" and ok: "status r = SUCCESS" by blast
  from failed_export_sets_success [OF started fails, of ?s]
  have cid: "call_resultId c = rid r"
    and res: "results (handleExportToSheets num rem confirmLogin google_loaded ?s)
                = map (\<lambda>x. if rid x = call_resultId c then x\<lparr>status := SUCCESS\<rparr> else x)
                    (results ?s)"
    using r by simp_all
  from r have rin: "r \<in> set (results ?s)"
    by (auto simp: activeResult_def dest: find_active_in)
  from ids_run [of evs] stamps have "distinct (map rid (results ?s))" by simp
  then have inj: "inj_on rid (set (results ?s))" by (simp add: distinct_map)
  have same: "(if rid x = call_resultId c then x\<lparr>status := SUCCESS\<rparr> else x) = x"
    if "x \<in> set (results ?s)" for x
  proof (cases "rid x = call_resultId c")
    case True
    with cid inj rin that have "x = r" by (auto dest: inj_onD)
    with ok show ?thesis by simp
  next
    case False
    then show ?thesis by simp
  qed
  have "map (\<lambda>x. if rid x = call_resultId c then x\<lparr>status := SUCCESS\<rparr> else x) (results ?s)
          = results ?s"
    by (rule map_idI) (rule same)
  with res show ?thesis by simp
qed

lemma failed_export_reverts_example:
  "snd (handleExportToSheets_begin False True ready_to_export)
     = Some (ExportCall ''sheet-id'' ''token'' scenario_items ''Result 1'' ''result-1'') \<and>
   fst (exportToGoogleSheet string_of_int remote_down ''sheet-id'' ''token'' scenario_items
          ''Result 1'') = Inl ''Failed to fetch'' \<and>
   map status (results ready_to_export) = [SUCCESS] \<and>
   map status (results (handleExportToSheets string_of_int remote_down False True ready_to_export))
     = [SUCCESS] \<and>
   map data (results (handleExportToSheets string_of_int remote_down False True ready_to_export))
     = [scenario_items] \<and>
   results (handleExportToSheets string_of_int remote_down False True ready_to_export)
     = results ready_to_export"
proof -
  let ?c = "ExportCall ''sheet-id'' ''token'' scenario_items ''Result 1'' ''result-1''"
  let ?s1 = "updateResult ''result-1'' (no_updates\<lparr>p_status := Some EXPORTING\<rparr>) ready_to_export"
  have h1: "handleExportToSheets_begin False True ready_to_export = (?s1, Some ?c)"
    unfolding ready_to_export_state
    by (simp add: handleExportToSheets_begin_def activeResult_def)
  have h1': "handleExportToSheets_begin False True (run ready_events initial_state)
               = (?s1, Some ?c)"
    using h1 by (simp add: ready_to_export_def)
  have h2: "fst (exportToGoogleSheet string_of_int remote_down (call_spreadsheetId ?c)
                  (call_accessToken ?c) (call_data ?c) (call_sheetName ?c))
              = Inl ''Failed to fetch''"
    by (simp add: exportToGoogleSheet_def remote_down_def)
  have e1: "distinct (upload_stamps ready_events)"
    and e2: "settles_once ready_events []"
    and e3: "export_enabled (run ready_events initial_state)"
    using export_starts_from_success_example by simp_all
  have same: "results (handleExportToSheets string_of_int remote_down False True ready_to_export)
                = results ready_to_export"
    using failed_export_reverts [OF e1 e2 e3 h1' h2] by (simp add: ready_to_export_def)
  from failed_export_sets_success [OF h1 h2] h1 h2 same show ?thesis
    by (simp add: ready_to_export_state)
qed

text \<open>
  Claim C4. When an export fails, the status of the result is to be what it was
  immediately before the export, for every status from which an export can be started,
  and the data and the other fields of the result are to be unchanged. This holds when the
  ids of the results are pairwise different (\<open>failed_export_reverts\<close>). It does not
  hold after two uploads that read the same \<open>Date.now()\<close>: both results have the id
  \<open>result-5\<close>, so both get the data of the first extraction and then the ERROR of the
  second, each extraction settling once. The active result is then in status ERROR and
  has data, so the Export Sheet button is enabled; after the failed export its status is
  SUCCESS, not ERROR. The data is as it was.
\<close>

theorem C4_failed_export_after_same_millisecond:
  "upload_stamps error_events = [5, 5] \<and>
   settles_once error_events [] \<and>
   map status (results error_with_data) = [ERROR, ERROR] \<and>
   map data (results error_with_data) = [scenario_items, scenario_items] \<and>
   export_enabled error_with_data \<and>
   fst (exportToGoogleSheet string_of_int remote_down ''sheet-id'' ''token'' scenario_items
          ''Result 1'') = Inl ''Failed to fetch'' \<and>
   map status (results (handleExportToSheets string_of_int remote_down False True error_with_data))
     = [SUCCESS, SUCCESS] \<and>
   map data (results (handleExportToSheets string_of_int remote_down False True error_with_data))
     = [scenario_items, scenario_items]"
proof -
  have tr: "upload_stamps error_events = [5, 5] \<and> settles_once error_events []"
    by (simp add: error_events_def same_stamp_def string_of_nat.simps digit_char_def)
  have st: "map status (results error_with_data) = [ERROR, ERROR] \<and>
   map data (results error_with_data) = [scenario_items, scenario_items] \<and>
   export_enabled error_with_data \<and>
   fst (exportToGoogleSheet string_of_int remote_down ''sheet-id'' ''token'' scenario_items
          ''Result 1'') = Inl ''Failed to fetch'' \<and>
   map status (results (handleExportToSheets string_of_int remote_down False True error_with_data))
     = [SUCCESS, SUCCESS] \<and>
   map data (results (handleExportToSheets string_of_int remote_down False True error_with_data))
     = [scenario_items, scenario_items]"
    unfolding error_with_data_state
    using scenario_items_has_data
    by (simp add: export_enabled_def connected_def hasData_def activeResult_def
        handleExportToSheets_def handleExportToSheets_begin_def
        handleExportToSheets_settled_def updateResult_def spread_status_only
        exportToGoogleSheet_def remote_down_def Let_def)
  from tr st show ?thesis by blast
qed

section \<open>An export refused as unauthorized\<close>

text \<open>
  Claim C6. When the message of a failed export contains \<open>401\<close> or contains
  \<open>unauthorized\<close>, the handler of the failure clears the stored access token and
  issues, after the alert of the failure, the alert that asks to connect again; the data
  of every result is as it was. The data of every result is also the same before and after
  the whole export handler, whatever the remote side answers.
\<close>

theorem C6_unauthorized_clears_token:
  assumes "contains message ''401'' \<or> contains message ''unauthorized''"
  shows "googleAccessToken (handleExportToSheets_settled c (Inl message) s) = None \<and>
         effects (handleExportToSheets_settled c (Inl message) s)
           = effects s @ [ConsoleError message, Alert (''Export Failed: '' @ message),
                          Alert ''Session expired. Please connect again.''] \<and>
         map data (results (handleExportToSheets_settled c (Inl message) s))
           = map data (results s) \<and>
         map data (results (handleExportToSheets num rem confirmLogin google_loaded s0))
           = map data (results s0)"
  using assms
  by (simp add: settled_data handleExportToSheets_data str_includes_contains [symmetric])
     (simp add: handleExportToSheets_settled_def Let_def updateResult_def)

theorem C6_unauthorized_clears_token_witness:
  "contains ''Error 401: unauthorized'' ''401'' \<and>
   fst (exportToGoogleSheet string_of_int remote_unauthorized ''sheet-id'' ''token''
          scenario_items ''Result 1'') = Inl ''Error 401: unauthorized'' \<and>
   googleAccessToken ready_to_export = Some ''token'' \<and>
   googleAccessToken
     (handleExportToSheets string_of_int remote_unauthorized False True ready_to_export) = None \<and>
   effects (handleExportToSheets string_of_int remote_unauthorized False True ready_to_export)
     = [Alert ''Connected to Google successfully! You can now export.'',
        Fetch (GetSpreadsheet ''sheet-id''),
        ConsoleError ''Error 401: unauthorized'',
        Alert ''Export Failed: Error 401: unauthorized'',
        Alert ''Session expired. Please connect again.''] \<and>
   map data (results
     (handleExportToSheets string_of_int remote_unauthorized False True ready_to_export))
     = [scenario_items]"
proof -
  let ?c = "ExportCall ''sheet-id'' ''token'' scenario_items ''Result 1'' ''result-1''"
  let ?s1 = "updateResult ''result-1'' (no_updates\<lparr>p_status := Some EXPORTING\<rparr>) ready_to_export"
  let ?s = "?s1\<lparr>effects := effects ?s1 @ [Fetch (GetSpreadsheet ''sheet-id'')]\<rparr>"
  have h: "contains ''Error 401: unauthorized'' ''401''
             \<or> contains ''Error 401: unauthorized'' ''unauthorized''"
    by (simp add: str_includes_contains [symmetric])
  have b: "handleExportToSheets_begin False True ready_to_export = (?s1, Some ?c)"
    unfolding ready_to_export_state
    by (simp add: handleExportToSheets_begin_def activeResult_def)
  have e: "exportToGoogleSheet string_of_int remote_unauthorized ''sheet-id'' ''token''
             scenario_items ''Result 1''
           = (Inl ''Error 401: unauthorized'', [GetSpreadsheet ''sheet-id''])"
    by (simp add: export_defs or_default_def)
  have run: "handleExportToSheets string_of_int remote_unauthorized False True ready_to_export
           = handleExportToSheets_settled ?c (Inl ''Error 401: unauthorized'') ?s"
    by (simp add: handleExportToSheets_def b e)
  have fx: "effects ?s1 = [Alert ''Connected to Google successfully! You can now export.'']"
    unfolding ready_to_export_state by (simp add: updateResult_def)
  have dt: "map data (results ?s) = [scenario_items]"
    unfolding ready_to_export_state by (simp add: updateResult_def spread_status_only)
  have tk: "googleAccessToken ready_to_export = Some ''token''"
    by (simp add: ready_to_export_state)
  have c1: "contains ''Error 401: unauthorized'' ''401''"
    by (simp add: str_includes_contains [symmetric])
  note k = C6_unauthorized_clears_token
             [OF h, of ?c ?s string_of_int remote_unauthorized False True ready_to_export]
  from k have k1: "googleAccessToken
        (handleExportToSheets_settled ?c (Inl ''Error 401: unauthorized'') ?s) = None"
    by blast
  from k have k2: "effects (handleExportToSheets_settled ?c (Inl ''Error 401: unauthorized'') ?s)
        = effects ?s @ [ConsoleError ''Error 401: unauthorized'',
                        Alert (''Export Failed: '' @ ''Error 401: unauthorized''),
                        Alert ''Session expired. Please connect again.'']"
    by blast
  from k have k3: "map data
        (results (handleExportToSheets_settled ?c (Inl ''Error 401: unauthorized'') ?s))
        = map data (results ?s)"
    by blast
  from fx have fx': "effects ?s = [Alert ''Connected to Google successfully! You can now export.'',
                                  Fetch (GetSpreadsheet ''sheet-id'')]"
    by simp
  show ?thesis
    unfolding run k1 k2 k3 fx' dt e using c1 tk by simp
qed

section \<open>What makes the export raise\<close>




end
